theory Spec2Isabelle
  imports Complex_Main
begin

section \<open>Strings and paths\<close>

text \<open>
  Strings are byte strings. \<open>lower\<close> is \<open>str.lower()\<close> on ASCII: only the letters
  \<open>A\<close> to \<open>Z\<close> change. Path handling is the POSIX flavour (\<open>posixpath\<close>,
  \<open>PurePosixPath\<close>): the separator is \<open>/\<close>, the extension separator is \<open>.\<close>.
\<close>

definition lower_char :: "char \<Rightarrow> char" where
  "lower_char c =
     (let n = (of_char c :: nat) in if 65 \<le> n \<and> n \<le> 90 then char_of (n + 32) else c)"

definition lower :: "string \<Rightarrow> string" where
  "lower s = map lower_char s"

definition startswith :: "string \<Rightarrow> string \<Rightarrow> bool" where
  "startswith s pre = (take (length pre) s = pre)"

definition lstrip :: "string \<Rightarrow> char \<Rightarrow> string" where
  "lstrip s c = dropWhile (\<lambda>x. x = c) s"

text \<open>\<open>s.rfind(c)\<close>: the highest index of \<open>c\<close> in \<open>s\<close>, or \<open>-1\<close>.\<close>

definition rfind :: "string \<Rightarrow> char \<Rightarrow> int" where
  "rfind s c =
     (if c \<in> set s
      then int (length s) - 1 - int (length (takeWhile (\<lambda>x. x \<noteq> c) (rev s)))
      else - 1)"

text \<open>
  The loop of \<open>genericpath._splitext\<close> that skips the leading dots of the file name:
  it returns at the first character before \<open>dotIndex\<close> that is not a dot.
\<close>

function splitext_loop :: "string \<Rightarrow> int \<Rightarrow> int \<Rightarrow> string \<times> string" where
  "splitext_loop p filenameIndex dotIndex =
     (if filenameIndex < dotIndex
      then (if take 1 (drop (nat filenameIndex) p) \<noteq> ''.''
            then (take (nat dotIndex) p, drop (nat dotIndex) p)
            else splitext_loop p (filenameIndex + 1) dotIndex)
      else (p, []))"
  by pat_completeness auto
termination
  by (relation "measure (\<lambda>(p, i, d). nat (d - i))") auto

declare splitext_loop.simps [simp del]

definition splitext :: "string \<Rightarrow> string \<times> string" where
  "splitext p =
     (let sepIndex = rfind p (CHR ''/'');
          dotIndex = rfind p (CHR ''.'')
      in if dotIndex > sepIndex then splitext_loop p (sepIndex + 1) dotIndex
         else (p, []))"

definition basename :: "string \<Rightarrow> string" where
  "basename p = drop (nat (rfind p (CHR ''/'') + 1)) p"

text \<open>Decimal rendering of integers, as an f-string does it.\<close>

definition digit_char :: "nat \<Rightarrow> char" where
  "digit_char d = char_of (48 + d)"

function str_nat :: "nat \<Rightarrow> string" where
  "str_nat n = (if n < 10 then [digit_char n] else str_nat (n div 10) @ [digit_char (n mod 10)])"
  by pat_completeness auto
termination
  by (relation "measure id") auto

declare str_nat.simps [simp del]

definition str_int :: "int \<Rightarrow> string" where
  "str_int i = (if i < 0 then CHR ''-'' # str_nat (nat (- i)) else str_nat (nat i))"

text \<open>\<open>sep.join(parts)\<close>.\<close>

fun sep_join :: "string \<Rightarrow> string list \<Rightarrow> string" where
  "sep_join sep [] = []"
| "sep_join sep [x] = x"
| "sep_join sep (x # y # ys) = x @ sep @ sep_join sep (y # ys)"

text \<open>
  A \<open>pathlib\<close> path is its tuple of parts; an absolute path has the anchor (\<open>/\<close>) as
  its first part. \<open>Path_str\<close> is \<open>str(path)\<close>, \<open>Path_name\<close> is \<open>path.name\<close>,
  \<open>Path_parent\<close> is \<open>path.parent\<close>, \<open>Path_child\<close> is the path that \<open>iterdir\<close>
  yields for an entry name.
\<close>

type_synonym Path = "string list"

definition is_anchor :: "string \<Rightarrow> bool" where
  "is_anchor part = (part = ''/'' \<or> part = ''//'')"

fun split_on :: "char \<Rightarrow> string \<Rightarrow> string \<Rightarrow> string list" where
  "split_on c [] cur = [rev cur]"
| "split_on c (x # xs) cur =
     (if x = c then rev cur # split_on c xs [] else split_on c xs (x # cur))"

definition Path_of :: "string \<Rightarrow> Path" where
  "Path_of s =
     (let anchor = (if startswith s ''//'' \<and> \<not> startswith s ''///'' then [''//'']
                    else if startswith s ''/'' then [''/''] else [])
      in anchor @ filter (\<lambda>part. part \<noteq> [] \<and> part \<noteq> ''.'') (split_on (CHR ''/'') s []))"

definition Path_str :: "Path \<Rightarrow> string" where
  "Path_str p =
     (case p of
        [] \<Rightarrow> ''.''
      | part # rest \<Rightarrow>
          if is_anchor part then part @ sep_join ''/'' rest else sep_join ''/'' (part # rest))"

definition Path_name :: "Path \<Rightarrow> string" where
  "Path_name p =
     (if p = [] \<or> (length p = 1 \<and> is_anchor (hd p)) then [] else last p)"

definition Path_parent :: "Path \<Rightarrow> Path" where
  "Path_parent p =
     (if p = [] \<or> (length p = 1 \<and> is_anchor (hd p)) then p else butlast p)"

definition Path_child :: "Path \<Rightarrow> string \<Rightarrow> Path" where
  "Path_child folder entry_name = folder @ [entry_name]"

section \<open>Exceptions\<close>

datatype exc_class =
  FileNotFoundError | NotADirectoryError | PermissionError | OSError
  | TypeError | ValueError | OverflowError

datatype exn = Exn exc_class string

fun exc_class_of :: "exn \<Rightarrow> exc_class" where
  "exc_class_of (Exn c m) = c"

text \<open>\<open>str(e)\<close>.\<close>

fun exc_str :: "exn \<Rightarrow> string" where
  "exc_str (Exn c m) = m"

text \<open>What \<open>except OSError\<close> catches: the class and its subclasses.\<close>

fun is_OSError :: "exn \<Rightarrow> bool" where
  "is_OSError (Exn c m) = (c = OSError \<or> c = FileNotFoundError \<or> c = NotADirectoryError
     \<or> c = PermissionError)"

fun is_PermissionError :: "exn \<Rightarrow> bool" where
  "is_PermissionError (Exn c m) = (c = PermissionError)"

section \<open>Configuration\<close>

record Config =
  supported_extensions :: "string list"
  primary_extension :: string
  output_directory :: string
  json_output_filename :: string
  csv_output_filename :: string
  log_filename :: string
  max_depth :: int
  skip_hidden_folders :: bool
  skip_hidden_files :: bool

definition config :: Config where
  "config = \<lparr>
     supported_extensions =
       [''.pdf'', ''.doc'', ''.docx'', ''.xls'', ''.xlsx'', ''.txt'', ''.csv''],
     primary_extension = ''.pdf'',
     output_directory = ''output'',
     json_output_filename = ''processing_results.json'',
     csv_output_filename = ''processing_results.csv'',
     log_filename = ''processing.log'',
     max_depth = 10,
     skip_hidden_folders = True,
     skip_hidden_files = True \<rparr>"

definition is_supported_file :: "Config \<Rightarrow> string \<Rightarrow> bool" where
  "is_supported_file cfg filepath =
     (let ext = lower (snd (splitext filepath)) in ext \<in> set (supported_extensions cfg))"

definition is_primary_file :: "Config \<Rightarrow> string \<Rightarrow> bool" where
  "is_primary_file cfg filepath =
     (let ext = lower (snd (splitext filepath)) in ext = primary_extension cfg)"

section \<open>Tracker\<close>

text \<open>
  The tracker keeps three lists. The console and file sinks of \<open>_output\<close> and the
  wall-clock timestamp of an entry are outside the model.
\<close>

datatype LogLevel = DEBUG | INFO | WARNING | ERROR | CRITICAL

record LogEntry =
  level :: LogLevel
  message :: string
  exception :: "string option"

record ProcessingTracker =
  entries :: "LogEntry list"
  errors :: "LogEntry list"
  warnings :: "LogEntry list"

definition create_entry ::
  "LogLevel \<Rightarrow> string \<Rightarrow> exn option \<Rightarrow> ProcessingTracker \<Rightarrow> ProcessingTracker" where
  "create_entry lvl msg exc t =
     (let entry = \<lparr> level = lvl, message = msg, exception = map_option exc_str exc \<rparr>;
          t1 = t\<lparr>entries := entries t @ [entry]\<rparr>
      in if lvl = ERROR \<or> lvl = CRITICAL then t1\<lparr>errors := errors t1 @ [entry]\<rparr>
         else if lvl = WARNING then t1\<lparr>warnings := warnings t1 @ [entry]\<rparr>
         else t1)"

definition log_info :: "string \<Rightarrow> ProcessingTracker \<Rightarrow> ProcessingTracker" where
  "log_info msg t = create_entry INFO msg None t"

definition log_warning :: "string \<Rightarrow> ProcessingTracker \<Rightarrow> ProcessingTracker" where
  "log_warning msg t = create_entry WARNING msg None t"

definition log_error :: "string \<Rightarrow> exn option \<Rightarrow> ProcessingTracker \<Rightarrow> ProcessingTracker" where
  "log_error msg exc t = create_entry ERROR msg exc t"

definition get_error_count :: "ProcessingTracker \<Rightarrow> nat" where
  "get_error_count t = length (errors t)"

definition get_warning_count :: "ProcessingTracker \<Rightarrow> nat" where
  "get_warning_count t = length (warnings t)"

section \<open>The file system seen by the scanner\<close>

text \<open>
  A directory tree. \<open>Dir\<close> is a directory with its entries in the order \<open>iterdir\<close>
  yields them, each with its name; \<open>DirErr e\<close> is a directory whose listing raises
  \<open>e\<close>; \<open>Other\<close> is an entry that is neither a regular file nor a directory;
  \<open>StatErr e\<close> is an entry on which \<open>is_file()\<close> and \<open>is_dir()\<close> raise \<open>e\<close>
  (its stat fails with an error that \<open>pathlib\<close> does not ignore). A scan reads one
  tree: both listings of a directory see the same entries.
\<close>

datatype node =
  File
  | Dir "(string \<times> node) list"
  | DirErr exn
  | Other
  | StatErr exn

fun is_file :: "node \<Rightarrow> exn + bool" where
  "is_file File = Inr True"
| "is_file (StatErr e) = Inl e"
| "is_file _ = Inr False"

fun is_dir :: "node \<Rightarrow> exn + bool" where
  "is_dir (Dir es) = Inr True"
| "is_dir (DirErr e) = Inr True"
| "is_dir (StatErr e) = Inl e"
| "is_dir _ = Inr False"

fun iterdir :: "node \<Rightarrow> exn + (string \<times> node) list" where
  "iterdir (Dir es) = Inr es"
| "iterdir (DirErr e) = Inl e"
| "iterdir (StatErr e) = Inl e"
| "iterdir _ = Inl (Exn NotADirectoryError ''Not a directory'')"

section \<open>Folder scanner\<close>

text \<open>
  A value of the file list is a Python object: the annotation \<open>List[str]\<close> is not
  enforced and the processor takes \<open>List[Any]\<close>. \<open>NonStr t\<close> is a value of type
  \<open>t\<close> that is neither \<open>str\<close>, \<open>bytes\<close> nor path-like. The scanner stores only
  \<open>Str\<close>.
\<close>

datatype pyobj = Str string | NonStr string

text \<open>
  \<open>uuid4()\<close> is a draw from a random source; an identifier is the number of the
  draw. The timestamp \<open>discovered_at\<close> is left out.
\<close>

type_synonym uuid = nat

record FolderInfo =
  guid :: uuid
  path :: string
  name :: string
  file_count :: nat
  files :: "pyobj list"
  parent_path :: string
  depth :: int

text \<open>
  The scanner object, with two fields that the source does not have: \<open>next_uuid\<close>,
  the number of identifiers drawn so far, and \<open>listed\<close>, the trace of the paths on
  which \<open>iterdir\<close> has been called.
\<close>

record FolderScanner =
  tracker :: ProcessingTracker
  scanned_folders :: "FolderInfo list"
  next_uuid :: nat
  listed :: "Path list"

text \<open>The body of the loop in \<open>_get_processable_files\<close>; \<open>Some e\<close> when it raises.\<close>

fun files_loop ::
  "Config \<Rightarrow> Path \<Rightarrow> (string \<times> node) list \<Rightarrow> string list \<Rightarrow> exn option \<times> string list" where
  "files_loop cfg folder [] processable_files = (None, processable_files)"
| "files_loop cfg folder ((entry_name, nd) # rest) processable_files =
     (let item = Path_child folder entry_name in
      case is_file nd of
        Inl e \<Rightarrow> (Some e, processable_files)
      | Inr False \<Rightarrow> files_loop cfg folder rest processable_files
      | Inr True \<Rightarrow>
          if skip_hidden_files cfg \<and> startswith (Path_name item) ''.''
          then files_loop cfg folder rest processable_files
          else if is_supported_file cfg (Path_str item)
          then files_loop cfg folder rest (processable_files @ [Path_name item])
          else files_loop cfg folder rest processable_files)"

definition get_processable_files :: "Config \<Rightarrow> Path \<Rightarrow> node \<Rightarrow> exn + string list" where
  "get_processable_files cfg folder nd =
     (case (case iterdir nd of
              Inl e \<Rightarrow> (Some e, [])
            | Inr es \<Rightarrow> files_loop cfg folder es [])
      of (None, processable_files) \<Rightarrow> Inr processable_files
       | (Some e, processable_files) \<Rightarrow>
           if is_PermissionError e then Inr processable_files else Inl e)"

definition record_folder :: "Path \<Rightarrow> int \<Rightarrow> string list \<Rightarrow> FolderScanner \<Rightarrow> FolderScanner" where
  "record_folder folder d processable_files s =
     (let folder_info = \<lparr>
            guid = next_uuid s,
            path = Path_str folder,
            name = Path_name folder,
            file_count = length processable_files,
            files = map Str processable_files,
            parent_path = Path_str (Path_parent folder),
            depth = d \<rparr>
      in s\<lparr> next_uuid := next_uuid s + 1,
            scanned_folders := scanned_folders s @ [folder_info],
            tracker := log_info (''Found folder: '' @ Path_name folder @ '' with ''
              @ str_nat (length processable_files) @ '' files'') (tracker s) \<rparr>)"

lemma iterdir_Inr_size:
  "iterdir nd = Inr es \<Longrightarrow> size_list (size_prod (\<lambda>x. 0) size) es < size nd"
  by (cases nd) auto

text \<open>
  \<open>_scan_recursive\<close> in three parts: the function with its depth test and its two
  handlers, the body of its \<open>try\<close> block, and the loop of that body over the entries,
  which recurses into the subdirectories. The \<open>try\<close> block and the loop return
  \<open>Some e\<close> when they raise \<open>e\<close>, with the state as it is then. The call into a
  subdirectory returns normally, its own handlers having caught what it raised.
\<close>

function scan_recursive :: "Config \<Rightarrow> Path \<Rightarrow> node \<Rightarrow> int \<Rightarrow> FolderScanner \<Rightarrow> FolderScanner"
  and scan_try ::
    "Config \<Rightarrow> Path \<Rightarrow> node \<Rightarrow> int \<Rightarrow> FolderScanner \<Rightarrow> exn option \<times> FolderScanner"
  and scan_subdirs ::
    "Config \<Rightarrow> Path \<Rightarrow> (string \<times> node) list \<Rightarrow> int \<Rightarrow> FolderScanner
      \<Rightarrow> exn option \<times> FolderScanner"
where
  "scan_recursive cfg folder nd d s =
     (if d > max_depth cfg
      then s\<lparr>tracker := log_warning (''Max depth ('' @ str_int (max_depth cfg)
             @ '') reached at: '' @ Path_str folder) (tracker s)\<rparr>
      else
        (case scan_try cfg folder nd d s of
           (None, s') \<Rightarrow> s'
         | (Some e, s') \<Rightarrow>
             if is_PermissionError e
             then s'\<lparr>tracker := log_error (''Permission denied accessing: '' @ Path_str folder)
                    (Some e) (tracker s')\<rparr>
             else s'\<lparr>tracker := log_error (''Error scanning folder: '' @ Path_str folder)
                    (Some e) (tracker s')\<rparr>))"
| "scan_try cfg folder nd d s =
     (if skip_hidden_folders cfg \<and> startswith (Path_name folder) ''.''
      then (None, s)
      else
        (let s0 = s\<lparr>listed := listed s @ [folder]\<rparr> in
         case get_processable_files cfg folder nd of
           Inl e \<Rightarrow> (Some e, s0)
         | Inr processable_files \<Rightarrow>
             (let s1 = (if processable_files \<noteq> []
                        then record_folder folder d processable_files s0 else s0);
                  s2 = s1\<lparr>listed := listed s1 @ [folder]\<rparr>
              in case iterdir nd of
                   Inl e \<Rightarrow> (Some e, s2)
                 | Inr es \<Rightarrow> scan_subdirs cfg folder es d s2)))"
| "scan_subdirs cfg folder [] d s = (None, s)"
| "scan_subdirs cfg folder ((entry_name, nd) # rest) d s =
     (case is_dir nd of
        Inl e \<Rightarrow> (Some e, s)
      | Inr True \<Rightarrow>
          scan_subdirs cfg folder rest d
            (scan_recursive cfg (Path_child folder entry_name) nd (d + 1) s)
      | Inr False \<Rightarrow> scan_subdirs cfg folder rest d s)"
  by pat_completeness auto
termination
  by (relation "measure (\<lambda>x. case x of
         Inl (cfg, folder, nd, d, s) \<Rightarrow> 2 * size nd + 1
       | Inr (Inl (cfg, folder, nd, d, s)) \<Rightarrow> 2 * size nd
       | Inr (Inr (cfg, folder, es, d, s)) \<Rightarrow>
           2 * size_list (size_prod (\<lambda>x. 0) size) es + 1)")
     (auto dest: iterdir_Inr_size)

declare scan_recursive.simps [simp del]

declare scan_try.simps [simp del]

text \<open>
  \<open>scan\<close>. \<open>target\<close> is what the root path resolves to, \<open>None\<close> when nothing exists
  there. On an entry that exists, \<open>exists()\<close> and \<open>is_dir()\<close> read the same stat, so
  the two tests are one case distinction on \<open>is_dir\<close>.
\<close>

definition scan ::
  "Config \<Rightarrow> string \<Rightarrow> node option \<Rightarrow> FolderScanner \<Rightarrow> (exn + FolderInfo list) \<times> FolderScanner" where
  "scan cfg root_path target s =
     (let s0 = s\<lparr>scanned_folders := []\<rparr>;
          root = Path_of root_path
      in case target of
           None \<Rightarrow>
             (Inl (Exn FileNotFoundError (''Root path does not exist: '' @ root_path)),
              s0\<lparr>tracker := log_error (''Root path does not exist: '' @ root_path) None
                   (tracker s0)\<rparr>)
         | Some nd \<Rightarrow>
             (case is_dir nd of
                Inl e \<Rightarrow> (Inl e, s0)
              | Inr False \<Rightarrow>
                  (Inl (Exn NotADirectoryError (''Root path is not a directory: '' @ root_path)),
                   s0\<lparr>tracker := log_error (''Root path is not a directory: '' @ root_path) None
                        (tracker s0)\<rparr>)
              | Inr True \<Rightarrow>
                  (let s1 = s0\<lparr>tracker := log_info (''Starting scan of: '' @ root_path)
                              (tracker s0)\<rparr>;
                       s2 = scan_recursive cfg root nd 0 s1;
                       s3 = s2\<lparr>tracker := log_info (''Scan complete. Found ''
                              @ str_nat (length (scanned_folders s2))
                              @ '' folders with processable files.'') (tracker s2)\<rparr>
                   in (Inr (scanned_folders s3), s3))))"

section \<open>File processor\<close>

datatype ProcessingStatus = PENDING | PROCESSING | COMPLETED | ERROR | SKIPPED

text \<open>A metadata value: the source stores ISO timestamps and \<open>None\<close>.\<close>

datatype meta_value = Text string | Null

text \<open>The timestamps \<open>processed_at\<close>, \<open>started_at\<close> and \<open>completed_at\<close> are left out.\<close>

record FileResult =
  file_guid :: uuid
  filename :: string
  filepath :: string
  folder_guid :: uuid
  status :: ProcessingStatus
  file_type :: string
  file_size :: nat
  error_message :: "string option"
  metadata :: "string \<rightharpoonup> meta_value"

record FolderResult =
  folder_guid :: uuid
  folder_path :: string
  folder_name :: string
  total_files :: nat
  processed_files :: nat
  error_files :: nat
  skipped_files :: nat
  file_results :: "FileResult list"

text \<open>
  The processor object; \<open>drawn_uuids\<close> counts the identifiers drawn so far and is not a
  field of the source.
\<close>

record FileProcessor =
  tracker :: ProcessingTracker
  results :: "FolderResult list"
  drawn_uuids :: nat

text \<open>
  What the processor reads from the operating system: \<open>os.path.getsize\<close>,
  \<open>os.stat\<close>, \<open>datetime.fromtimestamp(t).isoformat()\<close> and
  \<open>datetime.now().isoformat()\<close>. Each call may raise.
\<close>

record stat_result =
  st_ctime :: real
  st_mtime :: real
  st_atime :: real

record os_env =
  getsize :: "string \<Rightarrow> exn + nat"
  stat :: "string \<Rightarrow> exn + stat_result"
  fromtimestamp_isoformat :: "real \<Rightarrow> exn + string"
  now_isoformat :: string

text \<open>\<open>posixpath.join\<close> of two strings.\<close>

definition os_path_join :: "string \<Rightarrow> string \<Rightarrow> string" where
  "os_path_join a b =
     (if startswith b ''/'' then b
      else if a = [] \<or> last a = CHR ''/'' then a @ b
      else a @ ''/'' @ b)"

text \<open>The \<open>TypeError\<close> of \<open>os.path.join\<close> on a component of type \<open>t\<close>.\<close>

definition join_TypeError :: "string \<Rightarrow> exn" where
  "join_TypeError t =
     Exn TypeError (''join() argument must be str, bytes, or os.PathLike object, not ''
       @ [CHR 0x27] @ t @ [CHR 0x27])"

definition get_file_type :: "string \<Rightarrow> string" where
  "get_file_type fpath = lstrip (lower (snd (splitext fpath))) (CHR ''.'')"

text \<open>
  The \<open>try\<close> block of \<open>_extract_metadata\<close>: the keys stored before a call raises
  stay in the dictionary.
\<close>

definition stat_timestamps ::
  "os_env \<Rightarrow> string \<Rightarrow> (string \<rightharpoonup> meta_value) \<Rightarrow> exn option \<times> (string \<rightharpoonup> meta_value)" where
  "stat_timestamps env fpath md =
     (case stat env fpath of
        Inl e \<Rightarrow> (Some e, md)
      | Inr st \<Rightarrow>
          (case fromtimestamp_isoformat env (st_ctime st) of
             Inl e \<Rightarrow> (Some e, md)
           | Inr created \<Rightarrow>
               (let md1 = md(''created'' \<mapsto> Text created) in
                case fromtimestamp_isoformat env (st_mtime st) of
                  Inl e \<Rightarrow> (Some e, md1)
                | Inr modified \<Rightarrow>
                    (let md2 = md1(''modified'' \<mapsto> Text modified) in
                     case fromtimestamp_isoformat env (st_atime st) of
                       Inl e \<Rightarrow> (Some e, md2)
                     | Inr accessed \<Rightarrow> (None, md2(''accessed'' \<mapsto> Text accessed))))))"

definition pdf_placeholder :: "string \<Rightarrow> (string \<rightharpoonup> meta_value) \<Rightarrow> (string \<rightharpoonup> meta_value)" where
  "pdf_placeholder ftype md =
     (if ftype = ''pdf'' then md(''page_count'' \<mapsto> Null, ''pdf_version'' \<mapsto> Null) else md)"

definition extract_metadata :: "os_env \<Rightarrow> string \<Rightarrow> string \<Rightarrow> exn + (string \<rightharpoonup> meta_value)" where
  "extract_metadata env fpath ftype =
     (let md = [''extracted_at'' \<mapsto> Text (now_isoformat env)] in
      case stat_timestamps env fpath md of
        (None, md1) \<Rightarrow> Inr (pdf_placeholder ftype md1)
      | (Some e, md1) \<Rightarrow> if is_OSError e then Inr (pdf_placeholder ftype md1) else Inl e)"

definition process_file ::
  "os_env \<Rightarrow> string \<Rightarrow> uuid \<Rightarrow> FileProcessor \<Rightarrow> (exn + FileResult) \<times> FileProcessor" where
  "process_file env fpath fguid s =
     (let fname = basename fpath;
          ftype = get_file_type fpath
      in case (case getsize env fpath of
                 Inr n \<Rightarrow> Inr n
               | Inl e \<Rightarrow> if is_OSError e then Inr 0 else Inl e)
         of Inl e \<Rightarrow> (Inl e, s)
          | Inr fsize \<Rightarrow>
              (let s1 = s\<lparr>FileProcessor.tracker :=
                          log_info (''Processing file: '' @ fname) (FileProcessor.tracker s)\<rparr>
               in case extract_metadata env fpath ftype of
                    Inr md \<Rightarrow>
                      (Inr \<lparr> file_guid = drawn_uuids s1, filename = fname, filepath = fpath,
                             folder_guid = fguid, status = COMPLETED, file_type = ftype,
                             file_size = fsize, error_message = None, metadata = md \<rparr>,
                       s1\<lparr>drawn_uuids := drawn_uuids s1 + 1\<rparr>)
                  | Inl e \<Rightarrow>
                      (let s2 = s1\<lparr>FileProcessor.tracker :=
                                  log_error (''Error processing '' @ fname @ '': '' @ exc_str e)
                                    (Some e) (FileProcessor.tracker s1)\<rparr>
                       in (Inr \<lparr> file_guid = drawn_uuids s2, filename = fname,
                                  filepath = fpath, folder_guid = fguid, status = ERROR,
                                  file_type = ftype, file_size = fsize,
                                  error_message = Some (exc_str e), metadata = Map.empty \<rparr>,
                           s2\<lparr>drawn_uuids := drawn_uuids s2 + 1\<rparr>))))"

text \<open>
  The file loop of \<open>process_folder\<close> with its four accumulators. \<open>os.path.join\<close>
  stands outside the inner \<open>try\<close>: on an entry that is not a string its
  \<open>TypeError\<close> leaves the loop and the folder.
\<close>

type_synonym file_acc = "FileResult list \<times> nat \<times> nat \<times> nat"

fun process_files_loop ::
  "os_env \<Rightarrow> FolderInfo \<Rightarrow> pyobj list \<Rightarrow> file_acc \<Rightarrow> FileProcessor
    \<Rightarrow> (exn + file_acc) \<times> FileProcessor" where
  "process_files_loop env folder [] acc s = (Inr acc, s)"
| "process_files_loop env folder (NonStr t # rest) acc s = (Inl (join_TypeError t), s)"
| "process_files_loop env folder (Str fname # rest)
     (results_acc, processed_count, error_count, skipped_count) s =
     (let fpath = os_path_join (path folder) fname in
      case process_file env fpath (guid folder) s of
        (Inr result, s1) \<Rightarrow>
          process_files_loop env folder rest
            (results_acc @ [result],
             (if status result = COMPLETED then processed_count + 1 else processed_count),
             (if status result = COMPLETED then error_count
              else if status result = ERROR then error_count + 1 else error_count),
             (if status result = COMPLETED then skipped_count
              else if status result = ERROR then skipped_count
              else if status result = SKIPPED then skipped_count + 1 else skipped_count))
            s1
      | (Inl e, s1) \<Rightarrow>
          (let s2 = s1\<lparr>FileProcessor.tracker :=
                      log_error (''Exception processing file: '' @ fname) (Some e)
                        (FileProcessor.tracker s1)\<rparr>;
               result = \<lparr> file_guid = drawn_uuids s2, filename = fname, filepath = fpath,
                          folder_guid = guid folder, status = ERROR,
                          file_type = get_file_type fpath, file_size = 0,
                          error_message = Some (exc_str e), metadata = Map.empty \<rparr>
           in process_files_loop env folder rest
                (results_acc @ [result], processed_count, error_count + 1, skipped_count)
                (s2\<lparr>drawn_uuids := drawn_uuids s2 + 1\<rparr>)))"

definition process_folder ::
  "os_env \<Rightarrow> FolderInfo \<Rightarrow> FileProcessor \<Rightarrow> (exn + FolderResult) \<times> FileProcessor" where
  "process_folder env folder s =
     (let s0 = s\<lparr>FileProcessor.tracker :=
                 log_info (''Processing folder: '' @ name folder @ '' ('' @ str_nat (guid folder)
                   @ '')'') (FileProcessor.tracker s)\<rparr>
      in case process_files_loop env folder (files folder) ([], 0, 0, 0) s0 of
           (Inl e, s1) \<Rightarrow> (Inl e, s1)
         | (Inr (results_acc, processed_count, error_count, skipped_count), s1) \<Rightarrow>
             (Inr \<lparr> folder_guid = guid folder, folder_path = path folder,
                    folder_name = name folder, total_files = length (files folder),
                    processed_files = processed_count, error_files = error_count,
                    skipped_files = skipped_count, file_results = results_acc \<rparr>,
              s1\<lparr>FileProcessor.tracker :=
                   log_info (''Folder complete: '' @ str_nat processed_count @ '' processed, ''
                     @ str_nat error_count @ '' errors, '' @ str_nat skipped_count
                     @ '' skipped'') (FileProcessor.tracker s1)\<rparr>))"

fun process_folders_loop :: "os_env \<Rightarrow> FolderInfo list \<Rightarrow> FileProcessor \<Rightarrow> FileProcessor" where
  "process_folders_loop env [] s = s"
| "process_folders_loop env (folder # rest) s =
     (case process_folder env folder s of
        (Inr result, s1) \<Rightarrow>
          process_folders_loop env rest (s1\<lparr>results := results s1 @ [result]\<rparr>)
      | (Inl e, s1) \<Rightarrow>
          process_folders_loop env rest
            (s1\<lparr>FileProcessor.tracker :=
                  log_error (''Failed to process folder: '' @ path folder) (Some e)
                    (FileProcessor.tracker s1)\<rparr>))"

definition process_folders ::
  "os_env \<Rightarrow> FolderInfo list \<Rightarrow> FileProcessor \<Rightarrow> FolderResult list \<times> FileProcessor" where
  "process_folders env folders s =
     (let s' = process_folders_loop env folders (s\<lparr>results := []\<rparr>) in (results s', s'))"

record ProcessingSummary =
  total_folders :: nat
  total_files :: nat
  total_processed :: nat
  total_errors :: nat
  total_skipped :: nat
  success_rate :: real
  folder_results :: "FolderResult list"

definition get_summary :: "FileProcessor \<Rightarrow> ProcessingSummary" where
  "get_summary s =
     (let n_folders = length (results s);
          n_files = sum_list (map FolderResult.total_files (results s));
          n_processed = sum_list (map processed_files (results s));
          n_errors = sum_list (map error_files (results s));
          n_skipped = sum_list (map skipped_files (results s))
      in \<lparr> total_folders = n_folders, total_files = n_files, total_processed = n_processed,
            total_errors = n_errors, total_skipped = n_skipped,
            success_rate = (if n_files > 0 then real n_processed / real n_files * 100 else 0),
            folder_results = results s \<rparr>)"



section \<open>Notions for the properties of a scan\<close>

text \<open>
  A tree is well formed when no entry name holds the separator.
\<close>

fun wf_node :: "node \<Rightarrow> bool" where
  "wf_node (Dir es) = list_all (\<lambda>(n, c). CHR ''/'' \<notin> set n \<and> wf_node c) es"
| "wf_node _ = True"

text \<open>
  A folder record as the scanner must produce it: the count is the length of the file
  list, the list is not empty, and every entry is a name whose extension, in lower
  case, is in the supported set.
\<close>

definition processable_folder :: "Config \<Rightarrow> FolderInfo \<Rightarrow> bool" where
  "processable_folder cfg f =
     (file_count f = length (files f) \<and> 1 \<le> length (files f)
      \<and> list_all (\<lambda>x. case x of Str n \<Rightarrow> lower (snd (splitext n)) \<in> set (supported_extensions cfg)
                          | NonStr t \<Rightarrow> False) (files f))"

text \<open>
  \<open>grows Q R s s'\<close>: the state \<open>s'\<close> is \<open>s\<close> with folders appended that satisfy \<open>Q\<close>
  and are among the newly listed paths, and with listed paths appended that satisfy \<open>R\<close>.
  \<open>folder_inv\<close> and \<open>listed_inv\<close> are the \<open>Q\<close> and \<open>R\<close> of a call of
  \<open>scan_recursive\<close> on \<open>folder\<close> at depth \<open>d\<close>; the flag \<open>w\<close> says whether the tree is
  known to be well formed.
\<close>

definition grows ::
  "(FolderInfo \<Rightarrow> bool) \<Rightarrow> (Path \<Rightarrow> bool) \<Rightarrow> FolderScanner \<Rightarrow> FolderScanner \<Rightarrow> bool" where
  "grows Q R s s' =
     (\<exists>nf nl. scanned_folders s' = scanned_folders s @ nf \<and> listed s' = listed s @ nl
        \<and> (\<forall>f \<in> set nf. Q f \<and> (\<exists>p \<in> set nl. path f = Path_str p \<and> name f = Path_name p))
        \<and> (\<forall>p \<in> set nl. R p))"

definition folder_inv :: "Config \<Rightarrow> bool \<Rightarrow> int \<Rightarrow> FolderInfo \<Rightarrow> bool" where
  "folder_inv cfg w d f =
     ((w \<longrightarrow> processable_folder cfg f) \<and> d \<le> depth f \<and> depth f \<le> max_depth cfg)"

definition listed_inv :: "Config \<Rightarrow> Path \<Rightarrow> int \<Rightarrow> Path \<Rightarrow> bool" where
  "listed_inv cfg folder d p =
     (length folder \<le> length p \<and> take (length folder) p = folder
      \<and> int (length p) - int (length folder) + d \<le> max_depth cfg
      \<and> (skip_hidden_folders cfg \<longrightarrow>
           (\<forall>i. length folder \<le> i \<and> i \<le> length p
                \<longrightarrow> \<not> startswith (Path_name (take i p)) ''.'')))"

text \<open>
  \<open>clear_failed\<close> replaces every directory whose listing raises by an empty directory.
  \<open>core\<close> is the part of the scanner's state that the folders of the output depend on.
\<close>

fun clear_failed :: "node \<Rightarrow> node" where
  "clear_failed (Dir es) = Dir (map (\<lambda>(n, c). (n, clear_failed c)) es)"
| "clear_failed (DirErr e) = Dir []"
| "clear_failed nd = nd"

definition core :: "FolderScanner \<Rightarrow> FolderInfo list \<times> nat" where
  "core s = (scanned_folders s, next_uuid s)"



section \<open>Example inputs\<close>

definition new_tracker :: ProcessingTracker where
  "new_tracker = \<lparr>entries = [], errors = [], warnings = []\<rparr>"

definition new_processor :: FileProcessor where
  "new_processor = \<lparr>FileProcessor.tracker = new_tracker, results = [], drawn_uuids = 0\<rparr>"

text \<open>
  An operating system with four files: \<open>a.pdf\<close> is read without error; the size of
  \<open>old.doc\<close> cannot be read and its modification time is out of the range of
  \<open>fromtimestamp\<close>; \<open>b.txt\<close> has a size and its \<open>stat\<close> fails; on any other path
  \<open>getsize\<close> raises a \<open>ValueError\<close>.
\<close>

definition example_env :: os_env where
  "example_env = \<lparr>
     getsize = (\<lambda>p. if p = ''/data/docs/a.pdf'' then Inr 2048
                     else if p = ''/data/docs/old.doc''
                       then Inl (Exn PermissionError ''[Errno 13] Permission denied'')
                     else if p = ''/data/docs/b.txt'' then Inr 10
                     else Inl (Exn ValueError ''embedded null byte'')),
     stat = (\<lambda>p. if p = ''/data/docs/a.pdf''
                    then Inr \<lparr>st_ctime = 1000, st_mtime = 2000, st_atime = 3000\<rparr>
                  else if p = ''/data/docs/old.doc''
                    then Inr \<lparr>st_ctime = 1000, st_mtime = 999999999999999, st_atime = 3000\<rparr>
                  else if p = ''/data/docs/b.txt''
                    then Inl (Exn FileNotFoundError ''[Errno 2] No such file or directory'')
                  else Inr \<lparr>st_ctime = 1, st_mtime = 2, st_atime = 3\<rparr>),
     fromtimestamp_isoformat = (\<lambda>t. if t > 253402300799
                    then Inl (Exn ValueError ''year 31690708 is out of range'')
                    else Inr ''1970-01-01T00:00:00''),
     now_isoformat = ''2024-05-01T12:00:00'' \<rparr>"

definition docs_folder :: FolderInfo where
  "docs_folder = \<lparr>guid = 0, path = ''/data/docs'', name = ''docs'', file_count = 4,
     files = [Str ''a.pdf'', Str ''old.doc'', Str ''b.txt'', Str ''c.csv''],
     parent_path = ''/data'', depth = 1\<rparr>"

definition bad_folder :: FolderInfo where
  "bad_folder = \<lparr>guid = 1, path = ''/data/bad'', name = ''bad'', file_count = 2,
     files = [Str ''x.pdf'', NonStr ''NoneType''], parent_path = ''/data'', depth = 1\<rparr>"

definition docx_config :: Config where
  "docx_config = config\<lparr>primary_extension := ''.docx''\<rparr>"


definition example_run :: "FolderResult list \<times> FileProcessor" where
  "example_run = process_folders example_env [bad_folder, docs_folder] new_processor"

text \<open>Reading the outcome of an extraction: whether it returned, and a key of its dictionary.\<close>

definition extraction_ok :: "exn + (string \<rightharpoonup> meta_value) \<Rightarrow> bool" where
  "extraction_ok res = (case res of Inr md \<Rightarrow> True | Inl e \<Rightarrow> False)"

definition lookup_metadata :: "exn + (string \<rightharpoonup> meta_value) \<Rightarrow> string \<Rightarrow> meta_value option" where
  "lookup_metadata res k = (case res of Inr md \<Rightarrow> md k | Inl e \<Rightarrow> None)"

definition new_scanner :: FolderScanner where
  "new_scanner = \<lparr>FolderScanner.tracker = new_tracker, scanned_folders = [], next_uuid = 0,
     listed = []\<rparr>"

text \<open>
  A scan with depth limit 1 of a tree with a supported and an unsupported file type, a
  hidden directory, a directory that cannot be listed, an empty directory and a
  directory at depth 2.
\<close>

definition shallow_config :: Config where
  "shallow_config = config\<lparr>max_depth := 1\<rparr>"

definition example_tree :: node where
  "example_tree = Dir
     [(''docs'', Dir [(''a.pdf'', File), (''b.TXT'', File), (''notes.tmp'', File)]),
      (''.git'', Dir [(''x.pdf'', File)]),
      (''locked'', DirErr (Exn PermissionError ''[Errno 13] Permission denied'')),
      (''empty'', Dir []),
      (''deep'', Dir [(''c.csv'', File), (''deeper'', Dir [(''d.doc'', File)])])]"

definition example_scan :: "(exn + FolderInfo list) \<times> FolderScanner" where
  "example_scan = scan shallow_config ''/data'' (Some example_tree) new_scanner"

text \<open>The folders that the example scan finds, and a directory without a supported file.\<close>

definition example_folders :: "FolderInfo list" where
  "example_folders =
     [\<lparr>guid = 0, path = ''/data/docs'', name = ''docs'', file_count = 2,
        files = [Str ''a.pdf'', Str ''b.TXT''], parent_path = ''/data'', depth = 1\<rparr>,
      \<lparr>guid = 1, path = ''/data/deep'', name = ''deep'', file_count = 1,
        files = [Str ''c.csv''], parent_path = ''/data'', depth = 1\<rparr>]"

definition unsupported_entries :: "(string \<times> node) list" where
  "unsupported_entries = [(''notes.tmp'', File), (''inner'', Dir [(''a.pdf'', File)])]"


section \<open>Tracker lemmas\<close>

lemma log_info_errors [simp]: "errors (log_info msg t) = errors t"
  by (simp add: log_info_def create_entry_def Let_def)

lemma log_info_warnings [simp]: "warnings (log_info msg t) = warnings t"
  by (simp add: log_info_def create_entry_def Let_def)

lemma log_error_errors [simp]:
  "errors (log_error msg exc t) =
     errors t @ [\<lparr>level = LogLevel.ERROR, message = msg, exception = map_option exc_str exc\<rparr>]"
  by (simp add: log_error_def create_entry_def Let_def)

lemma log_error_warnings [simp]: "warnings (log_error msg exc t) = warnings t"
  by (simp add: log_error_def create_entry_def Let_def)

lemma log_warning_errors [simp]: "errors (log_warning msg t) = errors t"
  by (simp add: log_warning_def create_entry_def Let_def)

lemma log_warning_warnings [simp]:
  "warnings (log_warning msg t) =
     warnings t @ [\<lparr>level = WARNING, message = msg, exception = None\<rparr>]"
  by (simp add: log_warning_def create_entry_def Let_def)

section \<open>The file loop of the processor\<close>






section \<open>One folder\<close>





section \<open>Evaluation of the example run\<close>

lemma example_file_types:
  "get_file_type ''/data/docs/a.pdf'' = ''pdf''"
  "get_file_type ''/data/docs/old.doc'' = ''doc''"
  "get_file_type ''/data/docs/b.txt'' = ''txt''"
  "get_file_type ''/data/docs/c.csv'' = ''csv''"
  "get_file_type ''/data/bad/x.pdf'' = ''pdf''"
  "get_file_type ''/data/docs/report.docx'' = ''docx''"
  by code_simp+

lemma example_basenames:
  "basename ''/data/docs/a.pdf'' = ''a.pdf''"
  "basename ''/data/docs/old.doc'' = ''old.doc''"
  "basename ''/data/docs/b.txt'' = ''b.txt''"
  "basename ''/data/docs/c.csv'' = ''c.csv''"
  "basename ''/data/bad/x.pdf'' = ''x.pdf''"
  by code_simp+

lemmas example_unfold =
  process_folders_def process_folder_def process_file_def extract_metadata_def
  stat_timestamps_def pdf_placeholder_def example_env_def docs_folder_def bad_folder_def
  new_processor_def new_tracker_def os_path_join_def startswith_def Let_def
  example_file_types example_basenames join_TypeError_def

lemma example_run_results:
  "map (\<lambda>r. (FolderResult.folder_guid r, folder_path r, FolderResult.total_files r,
             processed_files r, error_files r, skipped_files r,
             map (\<lambda>fr. (filepath fr, status fr, file_size fr, error_message fr)) (file_results r)))
        (fst example_run) =
   [(0, ''/data/docs'', 4, 2, 2, 0,
     [(''/data/docs/a.pdf'', COMPLETED, 2048, None),
      (''/data/docs/old.doc'', ProcessingStatus.ERROR, 0, Some ''year 31690708 is out of range''),
      (''/data/docs/b.txt'', COMPLETED, 10, None),
      (''/data/docs/c.csv'', ProcessingStatus.ERROR, 0, Some ''embedded null byte'')])]"
  by (simp add: example_run_def example_unfold)

lemma example_run_state:
  "results (snd example_run) = fst example_run"
  by (simp add: example_run_def process_folders_def Let_def)

lemma example_run_errors:
  "map message (errors (FileProcessor.tracker (snd example_run))) =
     [''Exception processing file: x.pdf'', ''Failed to process folder: /data/bad'',
      ''Error processing old.doc: year 31690708 is out of range'',
      ''Exception processing file: c.csv'']"
  by (simp add: example_run_def example_unfold)



section \<open>Completeness of a folder's result\<close>



section \<open>Folders whose processing raises\<close>






section \<open>One file\<close>

lemma stat_timestamps_extracted_at:
  "md ''extracted_at'' = v \<Longrightarrow> snd (stat_timestamps env fp md) ''extracted_at'' = v"
  by (simp add: stat_timestamps_def Let_def split: sum.splits)

lemma extract_metadata_extracted_at:
  assumes "extract_metadata env fp ft = Inr md"
  shows "md ''extracted_at'' = Some (Text (now_isoformat env))"
proof -
  let ?md0 = "[''extracted_at'' \<mapsto> Text (now_isoformat env)]"
  have "snd (stat_timestamps env fp ?md0) ''extracted_at'' = Some (Text (now_isoformat env))"
    by (rule stat_timestamps_extracted_at) simp
  with assms show ?thesis
    by (auto simp: extract_metadata_def pdf_placeholder_def Let_def
        split: prod.splits option.splits if_splits)
qed




section \<open>Summary of a run\<close>

text \<open>
  C8. \<open>get_summary\<close> reports the number of folder results, the sums of the four
  counters over the folder results, and the success rate
  \<open>total_processed / total_files * 100\<close>, which is \<open>0\<close> when \<open>total_files = 0\<close>. The
  rate is a real number here: the rounding of the floating-point division is not
  modelled.
\<close>

theorem get_summary_totals:
  "total_folders (get_summary s) = length (results s)
   \<and> ProcessingSummary.total_files (get_summary s)
       = sum_list (map FolderResult.total_files (results s))
   \<and> total_processed (get_summary s) = sum_list (map processed_files (results s))
   \<and> total_errors (get_summary s) = sum_list (map error_files (results s))
   \<and> total_skipped (get_summary s) = sum_list (map skipped_files (results s))
   \<and> success_rate (get_summary s)
       = (if ProcessingSummary.total_files (get_summary s) = 0 then 0
          else real (total_processed (get_summary s))
                 / real (ProcessingSummary.total_files (get_summary s)) * 100)"
  by (simp add: get_summary_def Let_def)

text \<open>The summary of the example run, and of a processor that has processed nothing.\<close>

theorem get_summary_totals_witness:
  "total_folders (get_summary (snd example_run)) = 1
   \<and> ProcessingSummary.total_files (get_summary (snd example_run)) = 4
   \<and> total_processed (get_summary (snd example_run)) = 2
   \<and> total_errors (get_summary (snd example_run)) = 2
   \<and> total_skipped (get_summary (snd example_run)) = 0
   \<and> success_rate (get_summary (snd example_run)) = 50
   \<and> success_rate (get_summary new_processor) = 0"
proof -
  from example_run_results
  have a: "map FolderResult.total_files (fst example_run) = [4]"
    "map processed_files (fst example_run) = [2]"
    "map error_files (fst example_run) = [2]"
    "map skipped_files (fst example_run) = [0]"
    by auto
  then have l: "length (fst example_run) = 1" by (metis length_map length_Cons list.size(3) One_nat_def)
  have z: "results new_processor = []" by (simp add: new_processor_def)
  from get_summary_totals[of "snd example_run"] get_summary_totals[of new_processor] a l z
  show ?thesis by (simp add: example_run_state)
qed

section \<open>Metadata of the primary file type\<close>

lemma stat_timestamps_keys:
  "fst (stat_timestamps env fp md) = None \<Longrightarrow>
   \<exists>st c m a. stat env fp = Inr st \<and> fromtimestamp_isoformat env (st_ctime st) = Inr c
     \<and> fromtimestamp_isoformat env (st_mtime st) = Inr m
     \<and> fromtimestamp_isoformat env (st_atime st) = Inr a
     \<and> snd (stat_timestamps env fp md)
         = md(''created'' \<mapsto> Text c, ''modified'' \<mapsto> Text m, ''accessed'' \<mapsto> Text a)"
  by (auto simp: stat_timestamps_def Let_def split: sum.splits)

lemma stat_timestamps_stat_fails:
  "stat env fp = Inl e \<Longrightarrow> stat_timestamps env fp md = (Some e, md)"
  by (simp add: stat_timestamps_def)

lemma stat_timestamps_all_ok:
  "stat env fp = Inr st \<Longrightarrow> fromtimestamp_isoformat env (st_ctime st) = Inr c \<Longrightarrow>
   fromtimestamp_isoformat env (st_mtime st) = Inr m \<Longrightarrow>
   fromtimestamp_isoformat env (st_atime st) = Inr a \<Longrightarrow>
   stat_timestamps env fp md
     = (None, md(''created'' \<mapsto> Text c, ''modified'' \<mapsto> Text m, ''accessed'' \<mapsto> Text a))"
  by (simp add: stat_timestamps_def Let_def)

lemma primary_pdf_file_type:
  assumes "primary_extension cfg = ''.pdf''" and "is_primary_file cfg fp"
  shows "get_file_type fp = ''pdf''"
  using assms by (simp add: is_primary_file_def get_file_type_def lstrip_def Let_def)

text \<open>
  C9, as amended. \<open>_extract_metadata\<close> compares the file type with the literal
  \<open>pdf\<close> and does not read \<open>primary_extension\<close>. When the configured primary
  extension is \<open>.pdf\<close>, as by default, a successful extraction on a file of the
  primary type returns a dictionary with the keys \<open>page_count\<close> and \<open>pdf_version\<close>,
  both \<open>None\<close>, the key \<open>extracted_at\<close>, and the three file-system timestamps when
  \<open>stat\<close> and the conversions succeed (none of them when \<open>stat\<close> fails).
\<close>

theorem extract_metadata_pdf_keys:
  assumes "primary_extension cfg = ''.pdf''"
    and "is_primary_file cfg fp"
    and "extract_metadata env fp (get_file_type fp) = Inr md"
  shows "md ''page_count'' = Some Null \<and> md ''pdf_version'' = Some Null
       \<and> md ''extracted_at'' = Some (Text (now_isoformat env))
       \<and> (\<forall>st c m a. stat env fp = Inr st
             \<and> fromtimestamp_isoformat env (st_ctime st) = Inr c
             \<and> fromtimestamp_isoformat env (st_mtime st) = Inr m
             \<and> fromtimestamp_isoformat env (st_atime st) = Inr a
            \<longrightarrow> md ''created'' = Some (Text c) \<and> md ''modified'' = Some (Text m)
                \<and> md ''accessed'' = Some (Text a))
       \<and> (\<forall>e. stat env fp = Inl e
            \<longrightarrow> md ''created'' = None \<and> md ''modified'' = None \<and> md ''accessed'' = None)"
proof -
  have ft: "get_file_type fp = ''pdf''"
    by (rule primary_pdf_file_type[OF assms(1,2)])
  let ?md0 = "[''extracted_at'' \<mapsto> Text (now_isoformat env)]"
  from assms(3) ft have pdf: "md ''page_count'' = Some Null \<and> md ''pdf_version'' = Some Null"
    by (auto simp: extract_metadata_def pdf_placeholder_def Let_def
        split: prod.splits option.splits if_splits)
  have at: "md ''extracted_at'' = Some (Text (now_isoformat env))"
    by (rule extract_metadata_extracted_at[OF assms(3)])
  have ok: "md ''created'' = Some (Text c) \<and> md ''modified'' = Some (Text m)
                \<and> md ''accessed'' = Some (Text a)"
    if "stat env fp = Inr st" "fromtimestamp_isoformat env (st_ctime st) = Inr c"
      "fromtimestamp_isoformat env (st_mtime st) = Inr m"
      "fromtimestamp_isoformat env (st_atime st) = Inr a" for st c m a
    using assms(3) ft stat_timestamps_all_ok[OF that, of ?md0]
    by (auto simp: extract_metadata_def pdf_placeholder_def Let_def)
  have bad: "md ''created'' = None \<and> md ''modified'' = None \<and> md ''accessed'' = None"
    if "stat env fp = Inl e" for e
    using assms(3) ft stat_timestamps_stat_fails[OF that, of ?md0]
    by (auto simp: extract_metadata_def pdf_placeholder_def Let_def split: if_splits)
  from pdf at ok bad show ?thesis by blast
qed

lemma example_a_pdf_primary: "is_primary_file config ''/data/docs/a.pdf''"
  by code_simp

lemma example_report_docx_primary: "is_primary_file docx_config ''/data/docs/report.docx''"
  by code_simp

text \<open>\<open>a.pdf\<close> under the default configuration.\<close>

theorem extract_metadata_pdf_keys_witness:
  "is_primary_file config ''/data/docs/a.pdf''
   \<and> extraction_ok (extract_metadata example_env ''/data/docs/a.pdf'' ''pdf'')
   \<and> lookup_metadata (extract_metadata example_env ''/data/docs/a.pdf'' ''pdf'') ''page_count''
       = Some Null
   \<and> lookup_metadata (extract_metadata example_env ''/data/docs/a.pdf'' ''pdf'') ''pdf_version''
       = Some Null
   \<and> lookup_metadata (extract_metadata example_env ''/data/docs/a.pdf'' ''pdf'') ''extracted_at''
       = Some (Text ''2024-05-01T12:00:00'')
   \<and> lookup_metadata (extract_metadata example_env ''/data/docs/a.pdf'' ''pdf'') ''created''
       = Some (Text ''1970-01-01T00:00:00'')"
proof -
  have ok: "extraction_ok (extract_metadata example_env ''/data/docs/a.pdf'' ''pdf'')"
    by (simp add: extraction_ok_def extract_metadata_def stat_timestamps_def example_env_def
        Let_def)
  then obtain md where md: "extract_metadata example_env ''/data/docs/a.pdf'' ''pdf'' = Inr md"
    by (auto simp: extraction_ok_def split: sum.splits)
  have st: "stat example_env ''/data/docs/a.pdf''
              = Inr \<lparr>st_ctime = 1000, st_mtime = 2000, st_atime = 3000\<rparr>"
    "fromtimestamp_isoformat example_env 1000 = Inr ''1970-01-01T00:00:00''"
    "fromtimestamp_isoformat example_env 2000 = Inr ''1970-01-01T00:00:00''"
    "fromtimestamp_isoformat example_env 3000 = Inr ''1970-01-01T00:00:00''"
    "now_isoformat example_env = ''2024-05-01T12:00:00''"
    by (simp_all add: example_env_def)
  have p: "primary_extension config = ''.pdf''" by (simp add: config_def)
  from extract_metadata_pdf_keys[OF p example_a_pdf_primary,
      unfolded example_file_types, OF md] st
  have "md ''page_count'' = Some Null \<and> md ''pdf_version'' = Some Null
     \<and> md ''extracted_at'' = Some (Text ''2024-05-01T12:00:00'')
     \<and> md ''created'' = Some (Text ''1970-01-01T00:00:00'')"
    by simp
  with ok example_a_pdf_primary md show ?thesis
    by (simp add: lookup_metadata_def)
qed

text \<open>
  C9 as stated fails: with \<open>.docx\<close> configured as the primary extension, the
  extraction on \<open>report.docx\<close> succeeds and the dictionary has neither reserved key.
\<close>

theorem extract_metadata_primary_counterexample:
  "is_primary_file docx_config ''/data/docs/report.docx''
   \<and> extraction_ok (extract_metadata example_env ''/data/docs/report.docx''
        (get_file_type ''/data/docs/report.docx''))
   \<and> lookup_metadata (extract_metadata example_env ''/data/docs/report.docx''
        (get_file_type ''/data/docs/report.docx'')) ''page_count'' = None
   \<and> lookup_metadata (extract_metadata example_env ''/data/docs/report.docx''
        (get_file_type ''/data/docs/report.docx'')) ''pdf_version'' = None"
  using example_report_docx_primary
  by (simp add: example_file_types extraction_ok_def lookup_metadata_def extract_metadata_def
      stat_timestamps_def pdf_placeholder_def example_env_def Let_def)

section \<open>The extension of a path and of its last component\<close>

lemma rfind_notin: "c \<notin> set s \<Longrightarrow> rfind s c = - 1"
  by (simp add: rfind_def)

lemma length_takeWhile_lt:
  "\<exists>x \<in> set xs. \<not> P x \<Longrightarrow> length (takeWhile P xs) < length xs"
  by (induction xs) auto

lemma rfind_in_nonneg: "c \<in> set s \<Longrightarrow> 0 \<le> rfind s c"
proof -
  assume a: "c \<in> set s"
  then have "\<exists>x \<in> set (rev s). \<not> (x \<noteq> c)" by simp
  from length_takeWhile_lt[OF this] a show ?thesis by (simp add: rfind_def)
qed

lemma rfind_bounds: "- 1 \<le> rfind s c \<and> rfind s c < int (length s)"
  using rfind_in_nonneg[of c s] by (auto simp: rfind_def)

lemma rfind_append_in:
  assumes "c \<in> set n"
  shows "rfind (pre @ n) c = int (length pre) + rfind n c"
proof -
  from assms have "\<exists>x \<in> set (rev n). \<not> (x \<noteq> c)" by simp
  then have "takeWhile (\<lambda>x. x \<noteq> c) (rev n @ rev pre) = takeWhile (\<lambda>x. x \<noteq> c) (rev n)"
    by (induction "rev n") auto
  with assms show ?thesis by (simp add: rfind_def)
qed

lemma takeWhile_append_all:
  "\<forall>x \<in> set xs. P x \<Longrightarrow> takeWhile P (xs @ ys) = xs @ takeWhile P ys"
  by (induction xs) auto

lemma rfind_append_notin:
  assumes "c \<notin> set n"
  shows "rfind (pre @ n) c = rfind pre c"
proof -
  from assms have "\<forall>x \<in> set (rev n). x \<noteq> c" by auto
  from takeWhile_append_all[OF this, of "rev pre"] assms show ?thesis
    by (auto simp: rfind_def)
qed

lemma rfind_last:
  assumes "pre \<noteq> []" and "last pre = c"
  shows "rfind pre c = int (length pre) - 1"
proof -
  from assms obtain q where "pre = q @ [c]" by (metis append_butlast_last_id)
  then show ?thesis by (simp add: rfind_def)
qed

lemma splitext_loop_shift:
  "0 \<le> i \<Longrightarrow>
   snd (splitext_loop (pre @ n) (int (length pre) + i) (int (length pre) + d))
     = snd (splitext_loop n i d)"
proof (induction n i d rule: splitext_loop.induct)
  case (1 p i d)
  have dr: "drop (nat (int (length pre) + i)) (pre @ p) = drop (nat i) p"
    using 1(2) by (simp add: nat_add_distrib)
  show ?case
  proof (cases "i < d")
    case False
    then show ?thesis
      by (simp add: splitext_loop.simps[of "pre @ p"] splitext_loop.simps[of p])
  next
    case True
    then have d0: "0 \<le> d" using 1(2) by simp
    have dd: "drop (nat (int (length pre) + d)) (pre @ p) = drop (nat d) p"
      using d0 by (simp add: nat_add_distrib)
    show ?thesis
    proof (cases "take 1 (drop (nat i) p) \<noteq> ''.''")
      case t: True
      with True dr dd show ?thesis
        by (simp add: splitext_loop.simps[of "pre @ p"] splitext_loop.simps[of p])
    next
      case f: False
      from 1(1)[OF True] f 1(2)
      have "snd (splitext_loop (pre @ p) (int (length pre) + (i + 1)) (int (length pre) + d))
          = snd (splitext_loop p (i + 1) d)" by simp
      with True f dr show ?thesis
        by (simp add: splitext_loop.simps[of "pre @ p" "int (length pre) + i"]
            splitext_loop.simps[of p i] add.assoc)
    qed
  qed
qed

lemma splitext_ext_prefix:
  assumes "CHR ''/'' \<notin> set n" and "pre = [] \<or> last pre = CHR ''/''"
  shows "snd (splitext (pre @ n)) = snd (splitext n)"
proof (cases "pre = []")
  case True
  then show ?thesis by simp
next
  case False
  with assms(2) have lp: "last pre = CHR ''/''" by simp
  have sep: "rfind (pre @ n) (CHR ''/'') = int (length pre) - 1"
    using rfind_append_notin[OF assms(1)] rfind_last[OF False lp] by simp
  have sepn: "rfind n (CHR ''/'') = - 1"
    using assms(1) by (rule rfind_notin)
  show ?thesis
  proof (cases "CHR ''.'' \<in> set n")
    case True
    have dot: "rfind (pre @ n) (CHR ''.'') = int (length pre) + rfind n (CHR ''.'')"
      by (rule rfind_append_in[OF True])
    have nn: "0 \<le> rfind n (CHR ''.'')" by (rule rfind_in_nonneg[OF True])
    from splitext_loop_shift[of 0 pre n "rfind n (CHR ''.'')"]
    have "snd (splitext_loop (pre @ n) (int (length pre)) (int (length pre) + rfind n (CHR ''.'')))
        = snd (splitext_loop n 0 (rfind n (CHR ''.'')))" by simp
    with sep sepn dot nn show ?thesis
      by (simp add: splitext_def Let_def)
  next
    case nodot: False
    have "rfind (pre @ n) (CHR ''.'') = rfind pre (CHR ''.'')"
      by (rule rfind_append_notin[OF nodot])
    moreover have "rfind pre (CHR ''.'') < int (length pre)"
      using rfind_bounds[of pre "CHR ''.''"] by simp
    moreover have "rfind n (CHR ''.'') = - 1" by (rule rfind_notin[OF nodot])
    ultimately show ?thesis using sep sepn
      by (simp add: splitext_def Let_def)
  qed
qed

lemma sep_join_snoc:
  "sep_join sep (xs @ [n]) = (if xs = [] then n else sep_join sep xs @ sep @ n)"
  by (induction sep xs rule: sep_join.induct) auto

lemma Path_str_child:
  "\<exists>pre. Path_str (Path_child folder n) = pre @ n \<and> (pre = [] \<or> last pre = CHR ''/'')"
proof (cases folder)
  case Nil
  then show ?thesis by (auto simp: Path_str_def Path_child_def is_anchor_def)
next
  case (Cons part rest)
  show ?thesis
  proof (cases "is_anchor part")
    case True
    then have lp: "last part = CHR ''/''" "part \<noteq> []" by (auto simp: is_anchor_def)
    show ?thesis
    proof (cases "rest = []")
      case r: True
      with Cons True lp show ?thesis
        by (intro exI[of _ part]) (simp add: Path_str_def Path_child_def)
    next
      case r: False
      with Cons True show ?thesis
        by (intro exI[of _ "part @ sep_join ''/'' rest @ ''/''"])
           (simp add: Path_str_def Path_child_def sep_join_snoc)
    qed
  next
    case False
    have "sep_join ''/'' (part # rest @ [n]) = sep_join ''/'' (part # rest) @ ''/'' @ n"
      using sep_join_snoc[of "''/''" "part # rest" n] by simp
    with Cons False show ?thesis
      by (intro exI[of _ "sep_join ''/'' (part # rest) @ ''/''"])
         (simp add: Path_str_def Path_child_def)
  qed
qed

lemma Path_name_child:
  "CHR ''/'' \<notin> set n \<Longrightarrow> Path_name (Path_child folder n) = n"
  by (auto simp: Path_name_def Path_child_def is_anchor_def)

lemma is_supported_file_child:
  assumes "CHR ''/'' \<notin> set n"
  shows "is_supported_file cfg (Path_str (Path_child folder n)) = is_supported_file cfg n"
proof -
  from Path_str_child[of folder n] obtain pre where
    "Path_str (Path_child folder n) = pre @ n" "pre = [] \<or> last pre = CHR ''/''" by blast
  with splitext_ext_prefix[OF assms, of pre] show ?thesis
    by (simp add: is_supported_file_def)
qed

section \<open>What a scan appends\<close>

lemma grows_refl: "grows Q R s s"
  by (simp add: grows_def)

lemma grows_trans:
  assumes "grows Q R s s1" and "grows Q R s1 s2"
  shows "grows Q R s s2"
proof -
  from assms(1) obtain nf nl where a:
    "scanned_folders s1 = scanned_folders s @ nf" "listed s1 = listed s @ nl"
    "\<forall>f \<in> set nf. Q f \<and> (\<exists>p \<in> set nl. path f = Path_str p \<and> name f = Path_name p)"
    "\<forall>p \<in> set nl. R p" unfolding grows_def by blast
  from assms(2) obtain nf' nl' where b:
    "scanned_folders s2 = scanned_folders s1 @ nf'" "listed s2 = listed s1 @ nl'"
    "\<forall>f \<in> set nf'. Q f \<and> (\<exists>p \<in> set nl'. path f = Path_str p \<and> name f = Path_name p)"
    "\<forall>p \<in> set nl'. R p" unfolding grows_def by blast
  show ?thesis unfolding grows_def
  proof (intro exI[of _ "nf @ nf'"] exI[of _ "nl @ nl'"] conjI)
    show "scanned_folders s2 = scanned_folders s @ nf @ nf'" using a b by simp
    show "listed s2 = listed s @ nl @ nl'" using a b by simp
    show "\<forall>f\<in>set (nf @ nf'). Q f \<and> (\<exists>p\<in>set (nl @ nl').
             path f = Path_str p \<and> name f = Path_name p)"
      using a(3) b(3) by (auto; blast)
    show "\<forall>p\<in>set (nl @ nl'). R p" using a(4) b(4) by auto
  qed
qed

lemma grows_mono:
  assumes "grows Q R s s'" and "\<And>f. Q f \<Longrightarrow> Q' f" and "\<And>p. R p \<Longrightarrow> R' p"
  shows "grows Q' R' s s'"
  using assms unfolding grows_def by (elim exE conjE) (intro exI conjI; blast)

lemma grows_tracker: "grows Q R s (s\<lparr>FolderScanner.tracker := t\<rparr>)"
  by (simp add: grows_def)

lemma grows_listed: "R p \<Longrightarrow> grows Q R s (s\<lparr>listed := listed s @ [p]\<rparr>)"
  by (simp add: grows_def)

lemma grows_record:
  assumes "R folder"
    and "Q \<lparr>guid = next_uuid s, path = Path_str folder, name = Path_name folder,
            file_count = length fs, files = map Str fs,
            parent_path = Path_str (Path_parent folder), depth = d\<rparr>"
  shows "grows Q R s (record_folder folder d fs (s\<lparr>listed := listed s @ [folder]\<rparr>))"
  unfolding grows_def
  by (rule exI[of _ "[\<lparr>guid = next_uuid s, path = Path_str folder, name = Path_name folder,
            file_count = length fs, files = map Str fs,
            parent_path = Path_str (Path_parent folder), depth = d\<rparr>]"],
      rule exI[of _ "[folder]"])
     (use assms in \<open>simp add: record_folder_def Let_def\<close>)

lemma files_loop_supported:
  "list_all (\<lambda>(n, c). CHR ''/'' \<notin> set n \<and> wf_node c) es \<Longrightarrow>
   \<forall>n \<in> set acc. is_supported_file cfg n \<Longrightarrow>
   \<forall>n \<in> set (snd (files_loop cfg folder es acc)). is_supported_file cfg n"
proof (induction es arbitrary: acc)
  case Nil
  then show ?case by simp
next
  case (Cons x rest)
  obtain n c where x: "x = (n, c)" by (cases x) auto
  from Cons.prems x have n: "CHR ''/'' \<notin> set n"
    and rest: "list_all (\<lambda>(n, c). CHR ''/'' \<notin> set n \<and> wf_node c) rest" by auto
  note sup = is_supported_file_child[OF n, of cfg folder]
  note nm = Path_name_child[OF n, of folder]
  have ih1: "\<forall>m \<in> set (snd (files_loop cfg folder rest acc)). is_supported_file cfg m"
    by (rule Cons.IH[OF rest Cons.prems(2)])
  have ih2: "\<forall>m \<in> set (snd (files_loop cfg folder rest (acc @ [n]))). is_supported_file cfg m"
    if "is_supported_file cfg n"
    using Cons.IH[OF rest, of "acc @ [n]"] Cons.prems(2) that by auto
  show ?case
  proof (cases "is_file c")
    case (Inl e)
    with x Cons.prems show ?thesis by simp
  next
    case (Inr b)
    with ih1 ih2 x sup nm show ?thesis
      by (cases b) (auto simp: Let_def)
  qed
qed

lemma get_processable_files_supported:
  assumes "wf_node nd" and "get_processable_files cfg folder nd = Inr fs"
  shows "\<forall>n \<in> set fs. is_supported_file cfg n"
proof (cases nd)
  case (Dir es)
  with assms(1) have "list_all (\<lambda>(n, c). CHR ''/'' \<notin> set n \<and> wf_node c) es" by simp
  from files_loop_supported[OF this, of "[]" cfg folder] assms(2) Dir show ?thesis
    by (auto simp: get_processable_files_def split: prod.splits option.splits if_splits)
qed (use assms(2) in \<open>auto simp: get_processable_files_def split: if_splits\<close>)

lemma listed_inv_self:
  assumes "\<not> d > max_depth cfg"
    and "\<not> (skip_hidden_folders cfg \<and> startswith (Path_name folder) ''.'')"
  shows "listed_inv cfg folder d folder"
  using assms by (auto simp: listed_inv_def dest: le_antisym)

lemma listed_inv_child:
  assumes "listed_inv cfg (Path_child folder n) (d + 1) p"
    and "\<not> (skip_hidden_folders cfg \<and> startswith (Path_name folder) ''.'')"
  shows "listed_inv cfg folder d p"
proof -
  from assms(1) have len: "Suc (length folder) \<le> length p"
    and tk: "take (Suc (length folder)) p = folder @ [n]"
    and dp: "int (length p) - int (Suc (length folder)) + (d + 1) \<le> max_depth cfg"
    and hid: "skip_hidden_folders cfg \<longrightarrow>
           (\<forall>i. Suc (length folder) \<le> i \<and> i \<le> length p
                \<longrightarrow> \<not> startswith (Path_name (take i p)) ''.'')"
    by (simp_all add: listed_inv_def Path_child_def)
  have "take (length folder) p = take (length folder) (take (Suc (length folder)) p)"
    by (simp add: min_def)
  also have "\<dots> = folder" by (simp add: tk)
  finally have tk': "take (length folder) p = folder" .
  have "\<not> startswith (Path_name (take i p)) ''.''"
    if sk: "skip_hidden_folders cfg" and i: "length folder \<le> i" "i \<le> length p" for i
  proof (cases "i = length folder")
    case True
    with tk' assms(2) sk show ?thesis by simp
  next
    case False
    with i have "Suc (length folder) \<le> i" by simp
    with hid sk i show ?thesis by simp
  qed
  with len tk' dp show ?thesis by (simp add: listed_inv_def)
qed

lemma handler_grows:
  assumes "grows Q R s (snd body)"
  shows "grows Q R s (case body of
           (None, s') \<Rightarrow> s'
         | (Some e, s') \<Rightarrow>
             if is_PermissionError e
             then s'\<lparr>FolderScanner.tracker := a e s'\<rparr>
             else s'\<lparr>FolderScanner.tracker := b e s'\<rparr>)"
proof (cases body)
  case (Pair eo s')
  with assms have g: "grows Q R s s'" by simp
  show ?thesis
  proof (cases eo)
    case None
    with Pair g show ?thesis by simp
  next
    case (Some e)
    with Pair show ?thesis
      by (auto intro: grows_trans[OF g grows_tracker])
  qed
qed

lemma scan_recursive_from_try:
  assumes "\<And>s. \<not> d > max_depth cfg \<Longrightarrow> grows Q R s (snd (scan_try cfg folder nd d s))"
  shows "grows Q R s (scan_recursive cfg folder nd d s)"
proof (cases "d > max_depth cfg")
  case True
  then show ?thesis by (simp add: scan_recursive.simps grows_tracker)
next
  case False
  from handler_grows[OF assms[OF False]] False show ?thesis
    by (simp add: scan_recursive.simps)
qed

lemma record_processable:
  assumes "w \<longrightarrow> (\<forall>n \<in> set fs. is_supported_file cfg n)" and "fs \<noteq> []"
    and "\<not> d > max_depth cfg"
  shows "folder_inv cfg w d \<lparr>guid = g, path = p, name = nm, file_count = length fs,
            files = map Str fs, parent_path = pp, depth = d\<rparr>"
proof -
  from assms(2) have "1 \<le> length fs" by (cases fs) auto
  moreover from assms(1) have "w \<longrightarrow> list_all (\<lambda>x. case x of
        Str n \<Rightarrow> lower (snd (splitext n)) \<in> set (supported_extensions cfg)
      | NonStr t \<Rightarrow> False) (map Str fs)"
    by (simp add: list_all_iff is_supported_file_def)
  ultimately show ?thesis using assms(3)
    by (simp add: folder_inv_def processable_folder_def)
qed

lemma scan_try_grows_from_subdirs:
  assumes wf: "w \<longrightarrow> wf_node nd" and d: "\<not> d > max_depth cfg"
    and sub: "\<And>es s. iterdir nd = Inr es \<Longrightarrow>
        \<not> (skip_hidden_folders cfg \<and> startswith (Path_name folder) ''.'') \<Longrightarrow>
        grows (folder_inv cfg w d) (listed_inv cfg folder d) s
          (snd (scan_subdirs cfg folder es d s))"
  shows "grows (folder_inv cfg w d) (listed_inv cfg folder d) s (snd (scan_try cfg folder nd d s))"
proof (cases "skip_hidden_folders cfg \<and> startswith (Path_name folder) ''.''")
  case True
  then show ?thesis by (simp add: scan_try.simps grows_refl)
next
  case False
  note self = listed_inv_self[OF d False]
  let ?Q = "folder_inv cfg w d" and ?R = "listed_inv cfg folder d"
  let ?s0 = "s\<lparr>listed := listed s @ [folder]\<rparr>"
  have g0: "grows ?Q ?R s ?s0" by (rule grows_listed) (rule self)
  show ?thesis
  proof (cases "get_processable_files cfg folder nd")
    case (Inl e)
    with False g0 show ?thesis by (auto simp: scan_try.simps Let_def)
  next
    case (Inr fs)
    let ?s1 = "if fs \<noteq> [] then record_folder folder d fs ?s0 else ?s0"
    let ?s2 = "?s1\<lparr>listed := listed ?s1 @ [folder]\<rparr>"
    have g1: "grows ?Q ?R s ?s1"
    proof (cases "fs = []")
      case True
      with g0 show ?thesis by simp
    next
      case ne: False
      from get_processable_files_supported[OF _ Inr] wf
      have "w \<longrightarrow> (\<forall>n \<in> set fs. is_supported_file cfg n)" by blast
      then have q: "?Q \<lparr>guid = next_uuid s, path = Path_str folder, name = Path_name folder,
            file_count = length fs, files = map Str fs,
            parent_path = Path_str (Path_parent folder), depth = d\<rparr>"
        by (rule record_processable[OF _ ne d])
      have "grows ?Q ?R s (record_folder folder d fs ?s0)"
        by (rule grows_record) (rule self, rule q)
      with ne show ?thesis by simp
    qed
    have g2: "grows ?Q ?R s ?s2"
      by (rule grows_trans[OF g1]) (rule grows_listed, rule self)
    show ?thesis
    proof (cases "iterdir nd")
      case il: (Inl e)
      with False Inr g2 show ?thesis by (auto simp: scan_try.simps Let_def)
    next
      case ir: (Inr es)
      from grows_trans[OF g2 sub[OF ir False, of ?s2]] False Inr ir show ?thesis
        by (auto simp: scan_try.simps Let_def)
    qed
  qed
qed

lemma folder_inv_deeper: "folder_inv cfg w (d + 1) f \<Longrightarrow> folder_inv cfg w d f"
  by (simp add: folder_inv_def)

lemma scan_subdirs_grows:
  assumes ih: "\<And>n c folder d s. (n, c) \<in> set es0 \<Longrightarrow> w \<longrightarrow> wf_node c \<Longrightarrow>
        grows (folder_inv cfg w d) (listed_inv cfg folder d) s (scan_recursive cfg folder c d s)"
    and nh: "\<not> (skip_hidden_folders cfg \<and> startswith (Path_name folder) ''.'')"
  shows "set es \<subseteq> set es0 \<Longrightarrow>
    w \<longrightarrow> list_all (\<lambda>(n, c). CHR ''/'' \<notin> set n \<and> wf_node c) es \<Longrightarrow>
    grows (folder_inv cfg w (d + 1)) (listed_inv cfg folder d) s
      (snd (scan_subdirs cfg folder es d s))"
proof (induction es arbitrary: s)
  case Nil
  then show ?case by (simp add: grows_refl)
next
  case (Cons x rest)
  obtain n c where x: "x = (n, c)" by (cases x) auto
  from Cons.prems x have mem: "(n, c) \<in> set es0" and sub: "set rest \<subseteq> set es0"
    and wfc: "w \<longrightarrow> wf_node c"
    and wfr: "w \<longrightarrow> list_all (\<lambda>(n, c). CHR ''/'' \<notin> set n \<and> wf_node c) rest" by auto
  note rest = Cons.IH[OF sub wfr]
  show ?case
  proof (cases "is_dir c")
    case (Inl e)
    with x show ?thesis by (simp add: grows_refl)
  next
    case (Inr b)
    show ?thesis
    proof (cases b)
      case False
      with Inr x rest show ?thesis by simp
    next
      case True
      let ?s1 = "scan_recursive cfg (Path_child folder n) c (d + 1) s"
      from ih[OF mem wfc, of "d + 1" "Path_child folder n" s]
      have "grows (folder_inv cfg w (d + 1)) (listed_inv cfg (Path_child folder n) (d + 1)) s ?s1" .
      then have "grows (folder_inv cfg w (d + 1)) (listed_inv cfg folder d) s ?s1"
        by (rule grows_mono) (auto intro: listed_inv_child[OF _ nh])
      from grows_trans[OF this rest[of ?s1]] True Inr x show ?thesis by simp
    qed
  qed
qed

lemma scan_recursive_grows:
  "w \<longrightarrow> wf_node nd \<Longrightarrow>
   grows (folder_inv cfg w d) (listed_inv cfg folder d) s (scan_recursive cfg folder nd d s)"
proof (induction nd arbitrary: folder d s)
  case (Dir es)
  have ih: "grows (folder_inv cfg w d) (listed_inv cfg folder d) s (scan_recursive cfg folder c d s)"
    if "(n, c) \<in> set es" "w \<longrightarrow> wf_node c" for n c folder d s
  proof -
    have "c \<in> Basic_BNFs.snds (n, c)" by simp
    from Dir.IH[OF that(1) this that(2)] show ?thesis .
  qed
  from Dir.prems have wfl: "w \<longrightarrow> list_all (\<lambda>(n, c). CHR ''/'' \<notin> set n \<and> wf_node c) es"
    by simp
  show ?case
  proof (rule scan_recursive_from_try, rule scan_try_grows_from_subdirs[OF Dir.prems])
    fix s' es' assume d: "\<not> max_depth cfg < d" and it: "iterdir (Dir es) = Inr es'"
      and nh: "\<not> (skip_hidden_folders cfg \<and> startswith (Path_name folder) ''.'')"
    from it have e: "es' = es" by simp
    from scan_subdirs_grows[where ?es0.0=es and es=es and cfg=cfg and folder=folder and d=d
        and s=s' and w=w, OF ih nh _ wfl]
    have "grows (folder_inv cfg w (d + 1)) (listed_inv cfg folder d) s'
            (snd (scan_subdirs cfg folder es d s'))" by simp
    then show "grows (folder_inv cfg w d) (listed_inv cfg folder d) s'
            (snd (scan_subdirs cfg folder es' d s'))"
      unfolding e by (rule grows_mono) (auto intro: folder_inv_deeper)
  qed simp
qed (rule scan_recursive_from_try, rule scan_try_grows_from_subdirs, simp_all)+

section \<open>The result of a scan\<close>

lemma grows_new_folders:
  "grows Q R s s' \<Longrightarrow> \<forall>f \<in> set (drop (length (scanned_folders s)) (scanned_folders s')). Q f"
  by (auto simp: grows_def)

lemma grows_new_listed:
  "grows Q R s s' \<Longrightarrow> \<forall>p \<in> set (drop (length (listed s)) (listed s')). R p"
  by (auto simp: grows_def)

lemma grows_new_folders_listed:
  "grows Q R s s' \<Longrightarrow>
   \<forall>f \<in> set (drop (length (scanned_folders s)) (scanned_folders s')).
     \<exists>p \<in> set (drop (length (listed s)) (listed s')). path f = Path_str p \<and> name f = Path_name p"
  by (auto simp: grows_def)

lemma scan_Inr:
  assumes "scan cfg root_path (Some nd) s = (Inr folders, s')"
  shows "folders = scanned_folders (scan_recursive cfg (Path_of root_path) nd 0
             (s\<lparr>scanned_folders := [], FolderScanner.tracker :=
                 log_info (''Starting scan of: '' @ root_path) (FolderScanner.tracker s)\<rparr>))
       \<and> listed s' = listed (scan_recursive cfg (Path_of root_path) nd 0
             (s\<lparr>scanned_folders := [], FolderScanner.tracker :=
                 log_info (''Starting scan of: '' @ root_path) (FolderScanner.tracker s)\<rparr>))"
  using assms
  by (auto simp: scan_def Let_def split: sum.splits bool.splits)

lemma scan_grows:
  assumes "scan cfg root_path (Some nd) s = (Inr folders, s')" and "w \<longrightarrow> wf_node nd"
  shows "(\<forall>f \<in> set folders. folder_inv cfg w 0 f
            \<and> (\<exists>p \<in> set (drop (length (listed s)) (listed s')).
                  path f = Path_str p \<and> name f = Path_name p))
       \<and> (\<forall>p \<in> set (drop (length (listed s)) (listed s')). listed_inv cfg (Path_of root_path) 0 p)"
proof -
  let ?s1 = "s\<lparr>scanned_folders := [], FolderScanner.tracker :=
                 log_info (''Starting scan of: '' @ root_path) (FolderScanner.tracker s)\<rparr>"
  let ?s2 = "scan_recursive cfg (Path_of root_path) nd 0 ?s1"
  have g: "grows (folder_inv cfg w 0) (listed_inv cfg (Path_of root_path) 0) ?s1 ?s2"
    by (rule scan_recursive_grows[OF assms(2)])
  from scan_Inr[OF assms(1)] have f: "folders = scanned_folders ?s2"
    and l: "listed s' = listed ?s2" by auto
  from grows_new_folders[OF g] grows_new_listed[OF g] grows_new_folders_listed[OF g] f l
  show ?thesis by simp
qed

section \<open>Evaluation of the example scan\<close>

lemma example_scan_folders: "fst example_scan = Inr example_folders"
  unfolding example_scan_def by code_simp

lemma example_scan_eq:
  "scan shallow_config ''/data'' (Some example_tree) new_scanner
     = (Inr example_folders, snd example_scan)"
  using example_scan_folders by (simp add: example_scan_def prod_eq_iff)

lemma example_scan_listed:
  "listed (snd example_scan) =
     [[''/'', ''data''], [''/'', ''data''], [''/'', ''data'', ''docs''],
      [''/'', ''data'', ''docs''], [''/'', ''data'', ''locked''],
      [''/'', ''data'', ''locked''], [''/'', ''data'', ''empty''],
      [''/'', ''data'', ''empty''], [''/'', ''data'', ''deep''],
      [''/'', ''data'', ''deep'']]"
  unfolding example_scan_def by code_simp

lemma example_scan_log:
  "map message (warnings (FolderScanner.tracker (snd example_scan)))
     = [''Max depth (1) reached at: /data/deep/deeper'']"
  "map message (errors (FolderScanner.tracker (snd example_scan)))
     = [''Permission denied accessing: /data/locked'']"
  unfolding example_scan_def by code_simp+

lemma example_wf: "wf_node example_tree" "wf_node (Dir unsupported_entries)"
  by code_simp+

lemma example_root: "Path_of ''/data'' = [''/'', ''data'']"
  by code_simp

section \<open>Folders hold processable files\<close>

lemma files_loop_none:
  "\<forall>(n, c) \<in> set es. c = File \<longrightarrow> \<not> is_supported_file cfg (Path_str (Path_child folder n))
   \<Longrightarrow> snd (files_loop cfg folder es acc) = acc"
proof (induction es arbitrary: acc)
  case Nil
  then show ?case by simp
next
  case (Cons x rest)
  obtain n c where x: "x = (n, c)" by (cases x) auto
  from Cons.prems have r: "\<forall>(n, c) \<in> set rest. c = File \<longrightarrow>
      \<not> is_supported_file cfg (Path_str (Path_child folder n))" by simp
  from Cons.prems x have h: "c = File \<longrightarrow> \<not> is_supported_file cfg (Path_str (Path_child folder n))"
    by simp
  from Cons.IH[OF r] h x show ?case
    by (cases c) (auto simp: Let_def)
qed

lemma get_processable_files_none:
  assumes "\<forall>(n, c) \<in> set es. c = File \<longrightarrow>
             \<not> is_supported_file cfg (Path_str (Path_child folder n))"
  shows "get_processable_files cfg folder (Dir es) = Inr []
       \<or> (\<exists>e. get_processable_files cfg folder (Dir es) = Inl e)"
  using files_loop_none[OF assms, of "[]"]
  by (cases "files_loop cfg folder es []")
     (auto simp: get_processable_files_def split: option.splits)

lemma scan_recursive_unsupported:
  assumes wf: "wf_node (Dir es)"
    and un: "\<forall>(n, c) \<in> set es. c = File \<longrightarrow> \<not> is_supported_file cfg n"
  shows "grows (folder_inv cfg True (d + 1)) (listed_inv cfg folder d) s
           (scan_recursive cfg folder (Dir es) d s)"
proof (rule scan_recursive_from_try)
  fix s assume d: "\<not> max_depth cfg < d"
  let ?Q = "folder_inv cfg True (d + 1)" and ?R = "listed_inv cfg folder d"
  show "grows ?Q ?R s (snd (scan_try cfg folder (Dir es) d s))"
  proof (cases "skip_hidden_folders cfg \<and> startswith (Path_name folder) ''.''")
    case True
    then show ?thesis by (simp add: scan_try.simps grows_refl)
  next
    case False
    note self = listed_inv_self[OF d False]
    from wf have wfl: "list_all (\<lambda>(n, c). CHR ''/'' \<notin> set n \<and> wf_node c) es" by simp
    have "\<forall>(n, c) \<in> set es. c = File \<longrightarrow>
             \<not> is_supported_file cfg (Path_str (Path_child folder n))"
    proof clarify
      fix n assume m: "(n, File) \<in> set es"
        and sup: "is_supported_file cfg (Path_str (Path_child folder n))"
      from wfl m have "CHR ''/'' \<notin> set n" by (auto simp: list_all_iff)
      from sup is_supported_file_child[OF this, of cfg folder] un m show False by auto
    qed
    note gp = get_processable_files_none[OF this]
    let ?s0 = "s\<lparr>listed := listed s @ [folder]\<rparr>"
    let ?s2 = "?s0\<lparr>listed := listed ?s0 @ [folder]\<rparr>"
    have g0: "grows ?Q ?R s ?s0" by (rule grows_listed) (rule self)
    have g2: "grows ?Q ?R s ?s2" by (rule grows_trans[OF g0]) (rule grows_listed, rule self)
    have sub: "grows ?Q ?R ?s2 (snd (scan_subdirs cfg folder es d ?s2))"
      by (rule scan_subdirs_grows[where ?es0.0=es and w=True])
         (use wfl False in \<open>auto intro: scan_recursive_grows\<close>)
    from gp show ?thesis
    proof
      assume "get_processable_files cfg folder (Dir es) = Inr []"
      with False grows_trans[OF g2 sub] show ?thesis
        by (auto simp: scan_try.simps Let_def)
    next
      assume "\<exists>e. get_processable_files cfg folder (Dir es) = Inl e"
      with False g0 show ?thesis
        by (auto simp: scan_try.simps Let_def)
    qed
  qed
qed

text \<open>
  C3. In the output of a scan of a well-formed tree, every folder has \<open>file_count\<close>
  equal to the length of its file list, that length is at least 1, and every entry of
  the list is a name whose extension, in lower case, is in the supported set
  (\<open>processable_folder\<close>). A directory whose direct files are all unsupported adds no
  folder of its own: whatever its scan appends has a depth greater than its own, so it
  comes from a subdirectory.
\<close>

theorem scan_folders_processable:
  assumes "wf_node nd" and "wf_node (Dir es)"
  shows "(scan cfg root_path (Some nd) s = (Inr folders, s')
            \<longrightarrow> (\<forall>f \<in> set folders. processable_folder cfg f))
       \<and> ((\<forall>(n, c) \<in> set es. c = File \<longrightarrow> \<not> is_supported_file cfg n)
            \<longrightarrow> (\<forall>f \<in> set (drop (length (scanned_folders s))
                       (scanned_folders (scan_recursive cfg folder (Dir es) d s))). d < depth f))"
proof (intro conjI impI)
  assume "scan cfg root_path (Some nd) s = (Inr folders, s')"
  from scan_grows[OF this, of True] assms(1)
  show "\<forall>f \<in> set folders. processable_folder cfg f"
    by (simp add: folder_inv_def)
next
  assume "\<forall>(n, c) \<in> set es. c = File \<longrightarrow> \<not> is_supported_file cfg n"
  from grows_new_folders[OF scan_recursive_unsupported[OF assms(2) this,
        where d=d and folder=folder and s=s]]
  show "\<forall>f \<in> set (drop (length (scanned_folders s))
                       (scanned_folders (scan_recursive cfg folder (Dir es) d s))). d < depth f"
    by (auto simp: folder_inv_def)
qed

text \<open>
  The example scan finds \<open>docs\<close> and \<open>deep\<close>; the directory with \<open>notes.tmp\<close>
  adds only the folder of its subdirectory \<open>inner\<close>.
\<close>

theorem scan_folders_processable_witness:
  "wf_node example_tree
   \<and> fst example_scan = Inr example_folders
   \<and> list_all (processable_folder shallow_config) example_folders
   \<and> \<not> is_supported_file config ''notes.tmp''
   \<and> map (\<lambda>f. (path f, depth f))
        (scanned_folders (scan_recursive config [''/'', ''data'', ''tmp'']
           (Dir unsupported_entries) 1 new_scanner)) = [(''/data/tmp/inner'', 2)]
   \<and> list_all (\<lambda>f. 1 < depth f)
        (scanned_folders (scan_recursive config [''/'', ''data'', ''tmp'']
           (Dir unsupported_entries) 1 new_scanner))"
proof -
  have un: "\<not> is_supported_file config ''notes.tmp''" by code_simp
  then have h: "\<forall>(n, c) \<in> set unsupported_entries. c = File \<longrightarrow> \<not> is_supported_file config n"
    by (simp add: unsupported_entries_def)
  have ev: "map (\<lambda>f. (path f, depth f))
        (scanned_folders (scan_recursive config [''/'', ''data'', ''tmp'']
           (Dir unsupported_entries) 1 new_scanner)) = [(''/data/tmp/inner'', 2)]"
    by code_simp
  have z: "scanned_folders new_scanner = []" by (simp add: new_scanner_def)
  from scan_folders_processable[OF example_wf, where cfg=shallow_config
      and root_path="''/data''" and s=new_scanner and folders=example_folders
      and s'="snd example_scan"]
    scan_folders_processable[OF example_wf, where cfg=config and s=new_scanner
      and folder="[''/'', ''data'', ''tmp'']" and d=1]
    example_scan_eq h z
  have "list_all (processable_folder shallow_config) example_folders
      \<and> list_all (\<lambda>f. 1 < depth f)
        (scanned_folders (scan_recursive config [''/'', ''data'', ''tmp'']
           (Dir unsupported_entries) 1 new_scanner))"
    by (simp add: list_all_iff)
  with example_wf example_scan_folders un ev show ?thesis by simp
qed

section \<open>The depth limit\<close>

text \<open>
  C4. With depth limit \<open>max_depth cfg\<close> and the root at depth 0, no folder of the
  output has a depth above the limit, and every path listed during the scan is at most
  that many components below the root: no directory deeper than the limit is
  enumerated. A call at a depth above the limit records a warning and does nothing
  else.
\<close>

theorem scan_depth_bounded:
  "(scan cfg root_path (Some nd) s = (Inr folders, s') \<longrightarrow>
      (\<forall>f \<in> set folders. depth f \<le> max_depth cfg)
      \<and> (\<forall>p \<in> set (drop (length (listed s)) (listed s')).
            int (length p) - int (length (Path_of root_path)) \<le> max_depth cfg))
   \<and> (d > max_depth cfg \<longrightarrow>
        scan_recursive cfg folder nd d s
          = s\<lparr>FolderScanner.tracker := log_warning (''Max depth ('' @ str_int (max_depth cfg)
               @ '') reached at: '' @ Path_str folder) (FolderScanner.tracker s)\<rparr>)"
proof (intro conjI impI)
  assume a: "scan cfg root_path (Some nd) s = (Inr folders, s')"
  from scan_grows[OF a, of False]
  show "\<forall>f \<in> set folders. depth f \<le> max_depth cfg"
    by (simp add: folder_inv_def)
  from scan_grows[OF a, of False]
  show "\<forall>p \<in> set (drop (length (listed s)) (listed s')).
            int (length p) - int (length (Path_of root_path)) \<le> max_depth cfg"
    by (simp add: listed_inv_def)
next
  assume "d > max_depth cfg"
  then show "scan_recursive cfg folder nd d s
          = s\<lparr>FolderScanner.tracker := log_warning (''Max depth ('' @ str_int (max_depth cfg)
               @ '') reached at: '' @ Path_str folder) (FolderScanner.tracker s)\<rparr>"
    by (simp add: scan_recursive.simps)
qed

text \<open>
  With limit 1 the example scan lists nothing below depth 1 and warns at
  \<open>deep/deeper\<close>, which is at depth 2.
\<close>

theorem scan_depth_bounded_witness:
  "fst example_scan = Inr example_folders
   \<and> list_all (\<lambda>f. depth f \<le> 1) example_folders
   \<and> list_all (\<lambda>p. int (length p) - 2 \<le> 1) (listed (snd example_scan))
   \<and> [''/'', ''data'', ''deep'', ''deeper''] \<notin> set (listed (snd example_scan))
   \<and> map message (warnings (FolderScanner.tracker (snd example_scan)))
        = [''Max depth (1) reached at: /data/deep/deeper'']
   \<and> scan_recursive shallow_config [''/'', ''data'', ''deep'', ''deeper'']
         (Dir [(''d.doc'', File)]) 2 new_scanner
        = new_scanner\<lparr>FolderScanner.tracker :=
            log_warning ''Max depth (1) reached at: /data/deep/deeper'' new_tracker\<rparr>"
proof -
  have m: "max_depth shallow_config = 1" by (simp add: shallow_config_def config_def)
  have z: "listed new_scanner = []" "FolderScanner.tracker new_scanner = new_tracker"
    by (simp_all add: new_scanner_def)
  have p: "Path_str [''/'', ''data'', ''deep'', ''deeper''] = ''/data/deep/deeper''"
    by code_simp
  have i: "str_int 1 = ''1''" by code_simp
  from scan_depth_bounded[where cfg=shallow_config and root_path="''/data''"
      and nd=example_tree and s=new_scanner and folders=example_folders
      and s'="snd example_scan"]
    scan_depth_bounded[where cfg=shallow_config and s=new_scanner and d=2
      and folder="[''/'', ''data'', ''deep'', ''deeper'']" and nd="Dir [(''d.doc'', File)]"]
    example_scan_eq m z p i example_root
  have "list_all (\<lambda>f. depth f \<le> 1) example_folders
   \<and> list_all (\<lambda>p. int (length p) - 2 \<le> 1) (listed (snd example_scan))
   \<and> scan_recursive shallow_config [''/'', ''data'', ''deep'', ''deeper'']
         (Dir [(''d.doc'', File)]) 2 new_scanner
        = new_scanner\<lparr>FolderScanner.tracker :=
            log_warning ''Max depth (1) reached at: /data/deep/deeper'' new_tracker\<rparr>"
    by (simp add: list_all_iff)
  with example_scan_folders example_scan_log(1) show ?thesis
    by (simp add: example_scan_listed)
qed

section \<open>Hidden folders\<close>

text \<open>
  C7. With hidden-folder skipping enabled, a call of \<open>scan_recursive\<close> within the depth
  limit on a directory whose name begins with a dot returns the state unchanged:
  nothing is recorded, listed or logged. In a whole scan, no listed path is or lies
  below a hidden directory (counting from the root down), and every folder of the output
  is a listed path with a name that is not hidden.
\<close>

theorem hidden_folders_skipped:
  assumes "skip_hidden_folders cfg"
  shows "(startswith (Path_name folder) ''.'' \<and> d \<le> max_depth cfg
            \<longrightarrow> scan_recursive cfg folder nd d s = s)
       \<and> (scan cfg root_path (Some nd) s = (Inr folders, s') \<longrightarrow>
            (\<forall>p \<in> set (drop (length (listed s)) (listed s')).
               \<forall>i. length (Path_of root_path) \<le> i \<and> i \<le> length p
                 \<longrightarrow> \<not> startswith (Path_name (take i p)) ''.'')
          \<and> (\<forall>f \<in> set folders. \<not> startswith (name f) ''.''
                \<and> (\<exists>p \<in> set (drop (length (listed s)) (listed s')).
                      path f = Path_str p \<and> name f = Path_name p)))"
proof (intro conjI impI)
  assume "startswith (Path_name folder) ''.'' \<and> d \<le> max_depth cfg"
  with assms show "scan_recursive cfg folder nd d s = s"
    by (simp add: scan_recursive.simps scan_try.simps)
next
  assume a: "scan cfg root_path (Some nd) s = (Inr folders, s')"
  note g = scan_grows[OF a, of False, simplified]
  from g assms
  show l: "\<forall>p \<in> set (drop (length (listed s)) (listed s')).
               \<forall>i. length (Path_of root_path) \<le> i \<and> i \<le> length p
                 \<longrightarrow> \<not> startswith (Path_name (take i p)) ''.''"
    by (simp add: listed_inv_def)
  show "\<forall>f \<in> set folders. \<not> startswith (name f) ''.''
                \<and> (\<exists>p \<in> set (drop (length (listed s)) (listed s')).
                      path f = Path_str p \<and> name f = Path_name p)"
  proof
    fix f assume "f \<in> set folders"
    with g obtain p where p: "p \<in> set (drop (length (listed s)) (listed s'))"
      "path f = Path_str p" "name f = Path_name p" by blast
    from g p(1) have "length (Path_of root_path) \<le> length p" by (simp add: listed_inv_def)
    with l p(1) have "\<not> startswith (Path_name (take (length p) p)) ''.''" by blast
    with p show "\<not> startswith (name f) ''.''
                \<and> (\<exists>p \<in> set (drop (length (listed s)) (listed s')).
                      path f = Path_str p \<and> name f = Path_name p)" by auto
  qed
qed

text \<open>The directory \<open>.git\<close> of the example tree.\<close>

theorem hidden_folders_skipped_witness:
  "skip_hidden_folders shallow_config
   \<and> startswith (Path_name [''/'', ''data'', ''.git'']) ''.''
   \<and> scan_recursive shallow_config [''/'', ''data'', ''.git'']
        (Dir [(''x.pdf'', File)]) 1 new_scanner = new_scanner
   \<and> fst example_scan = Inr example_folders
   \<and> list_all (\<lambda>f. \<not> startswith (name f) ''.'') example_folders
   \<and> list_all (\<lambda>p. \<not> startswith (Path_name (take 3 p)) ''.'') (listed (snd example_scan))
   \<and> [''/'', ''data'', ''.git''] \<notin> set (listed (snd example_scan))"
proof -
  have sk: "skip_hidden_folders shallow_config" by (simp add: shallow_config_def config_def)
  have m: "(1::int) \<le> max_depth shallow_config" by (simp add: shallow_config_def config_def)
  have hid: "startswith (Path_name [''/'', ''data'', ''.git'']) ''.''" by code_simp
  have z: "listed new_scanner = []" by (simp add: new_scanner_def)
  note t = hidden_folders_skipped[OF sk, where root_path="''/data''" and nd=example_tree
      and s=new_scanner and folders=example_folders and s'="snd example_scan"]
  note t1 = hidden_folders_skipped[OF sk, where folder="[''/'', ''data'', ''.git'']" and d=1
      and nd="Dir [(''x.pdf'', File)]" and s=new_scanner]
  from t1 hid m have a: "scan_recursive shallow_config [''/'', ''data'', ''.git'']
        (Dir [(''x.pdf'', File)]) 1 new_scanner = new_scanner" by blast
  from t example_scan_eq z have b: "list_all (\<lambda>f. \<not> startswith (name f) ''.'') example_folders"
    by (simp add: list_all_iff)
  from t example_scan_eq z example_root
  have "\<forall>p \<in> set (listed (snd example_scan)).
      \<forall>i. 2 \<le> i \<and> i \<le> length p \<longrightarrow> \<not> startswith (Path_name (take i p)) ''.''"
    by simp
  then have "\<forall>p \<in> set (listed (snd example_scan)).
      3 \<le> length p \<longrightarrow> \<not> startswith (Path_name (take 3 p)) ''.''"
    by auto
  moreover have "\<forall>p \<in> set (listed (snd example_scan)).
      \<not> 3 \<le> length p \<longrightarrow> \<not> startswith (Path_name (take 3 p)) ''.''"
    unfolding example_scan_listed by code_simp
  ultimately have c: "list_all (\<lambda>p. \<not> startswith (Path_name (take 3 p)) ''.'')
      (listed (snd example_scan))"
    unfolding list_all_iff by blast
  from sk hid a b c example_scan_folders show ?thesis
    by (simp add: example_scan_listed)
qed


section \<open>Failures of a scan\<close>

lemma is_file_clear [simp]: "is_file (clear_failed c) = is_file c"
  by (cases c) auto

lemma is_dir_clear [simp]: "is_dir (clear_failed c) = is_dir c"
  by (cases c) auto



lemma core_tracker [simp]: "core (s\<lparr>FolderScanner.tracker := t\<rparr>) = core s"
  by (simp add: core_def)

lemma core_listed [simp]: "core (s\<lparr>listed := l\<rparr>) = core s"
  by (simp add: core_def)

















section \<open>The result lists are reset at entry\<close>

text \<open>
  C10. \<open>scan\<close> and \<open>process_folders\<close> do not depend on the result list that the
  object holds at entry: each call starts from the empty list. The list returned is the
  list that the object holds afterwards (after a scan that raises, the empty list), so
  \<open>get_summary\<close> reads the results of the last call only.
\<close>

theorem results_reset_at_entry:
  "scan cfg root_path target (s\<lparr>scanned_folders := old\<rparr>) = scan cfg root_path target s
   \<and> scanned_folders (snd (scan cfg root_path target s))
       = (case fst (scan cfg root_path target s) of Inr folders \<Rightarrow> folders | Inl e \<Rightarrow> [])
   \<and> process_folders env folders (p\<lparr>results := old_results\<rparr>) = process_folders env folders p
   \<and> results (snd (process_folders env folders p)) = fst (process_folders env folders p)"
  by (simp add: scan_def process_folders_def Let_def split: option.splits sum.splits bool.splits)


text \<open>
  A scanner and a processor that hold results of an earlier call return the results of
  the new call alone.
\<close>

theorem results_reset_at_entry_witness:
  "fst (scan shallow_config ''/data'' (Some example_tree)
          (new_scanner\<lparr>scanned_folders := example_folders\<rparr>)) = Inr example_folders
   \<and> scanned_folders (snd example_scan) = example_folders
   \<and> process_folders example_env [bad_folder, docs_folder]
        (new_processor\<lparr>results := fst example_run\<rparr>) = example_run
   \<and> results (snd example_run) = fst example_run
   \<and> length (fst example_run) = 1"
proof -
  note t = results_reset_at_entry[where cfg=shallow_config and root_path="''/data''"
      and target="Some example_tree" and s=new_scanner and old=example_folders
      and env=example_env and folders="[bad_folder, docs_folder]" and p=new_processor
      and old_results="fst example_run"]
  from example_run_results have "length (map (\<lambda>r. FolderResult.total_files r) (fst example_run)) = 1"
    by (metis (no_types, lifting) length_map length_Cons list.size(3) One_nat_def)
  then have l: "length (fst example_run) = 1" by simp
  from t example_scan_folders l show ?thesis
    by (simp add: example_scan_def example_run_def)
qed

end
